theory Spec2Isabelle
  imports Complex_Main "HOL-Library.AList" "HOL-Library.Sublist"
begin

section \<open>JavaScript values\<close>

text \<open>
  The application keeps its whole state in one JavaScript value that is written to and
  read from JSON. Numbers are IEEE doubles; no operation of the program computes with
  them, so a number is kept as the value it denotes (the two zeros are one value here;
  \<open>Num_Infinity True\<close> is \<open>Infinity\<close>, \<open>Num_Infinity False\<close> is \<open>-Infinity\<close>). A string is
  a list of 8-bit characters: the model covers strings whose code units are below 256.

  An object is the list of its own properties, keys unique, in the order in which the
  keys were first written. This is the order in which JavaScript enumerates the keys that
  are not integer-like; an integer-like key (\<open>"9"\<close>) comes first in JavaScript, before the
  other keys and in ascending order, whenever it was written, and the list does not move
  it there. Where a key that is written may be integer-like (a card id that is an argument
  of the operation), what is stated below is stated of the keys and of the value of each
  key (\<open>map_of\<close>), not of the place of a key.
\<close>

datatype jsnum = Num_NaN | Num_Infinity bool | Num_Finite rat

datatype jsval =
    JNull
  | JBool bool
  | JNumber jsnum
  | JString string
  | JArray "jsval list"
  | JObject "(string \<times> jsval) list"

type_synonym obj = "(string \<times> jsval) list"

text \<open>\<open>{ ...a, ...b }\<close>: the properties of \<open>b\<close> are written over those of \<open>a\<close>, in
  the order of \<open>b\<close>; a key that \<open>a\<close> already has keeps its place.\<close>

definition spread :: "('k \<times> 'v) list \<Rightarrow> ('k \<times> 'v) list \<Rightarrow> ('k \<times> 'v) list" where
  "spread a b = fold (\<lambda>(k, v). AList.update k v) b a"

section \<open>The data model\<close>

record column =
  col_id :: string
  col_title :: string
  cardIds :: "string list"

record board =
  columns :: "column list"
  cards :: "(string \<times> obj) list"

record project =
  proj_id :: string
  title :: string
  description :: string
  proj_image :: "string option"
  tags :: "string list"
  board :: board

record user =
  user_id :: string
  user_name :: string
  role :: string
  avatarColor :: string

record meta =
  createdAt :: jsnum
  meta_name :: string

record workspace =
  meta :: meta
  users :: "user list"
  projects :: "project list"

section \<open>Utilities\<close>

text \<open>
  \<open>uid(prefix)\<close> is \<open>prefix + "_" + Math.random().toString(36).slice(2, 9)\<close>
  (\<open>pre\<close> is the prefix). The sampled
  segment is an argument of the model: every function that calls \<open>uid\<close> takes the segments
  it samples.
\<close>

definition uid :: "string \<Rightarrow> string \<Rightarrow> string" where
  "uid pre seg = pre @ ''_'' @ seg"

section \<open>Project operations\<close>

definition newProj :: "string \<Rightarrow> project" where
  "newProj seg =
     \<lparr> proj_id = uid ''proj'' seg,
       title = ''New Project'',
       description = ''Describe this project. Use markdown!'',
       proj_image = None,
       tags = [],
       board = \<lparr> columns =
                   [ \<lparr> col_id = ''todo'', col_title = ''To Do'', cardIds = [] \<rparr>,
                     \<lparr> col_id = ''inprogress'', col_title = ''In Progress'', cardIds = [] \<rparr>,
                     \<lparr> col_id = ''done'', col_title = ''Done'', cardIds = [] \<rparr> ],
                 cards = [] \<rparr> \<rparr>"

text \<open>The state update of \<open>createProject\<close>: \<open>{ ...d, projects: [newProj, ...d.projects] }\<close>.\<close>

definition createProject :: "string \<Rightarrow> workspace \<Rightarrow> workspace" where
  "createProject seg d = d\<lparr>projects := newProj seg # projects d\<rparr>"

section \<open>Sample seed data\<close>

text \<open>\<open>sampleSeed()\<close>; \<open>now\<close> is the value of \<open>Date.now()\<close>. In the source the name of
  the workspace has an em dash (U+2014) where a hyphen is written here, that character
  being outside the 8-bit strings; no operation reads the name.\<close>

definition sampleSeed :: "jsnum \<Rightarrow> workspace" where
  "sampleSeed now =
     \<lparr> meta = \<lparr> createdAt = now, meta_name = ''TaskFlow - Demo Project'' \<rparr>,
       users = [ \<lparr> user_id = ''u_me'', user_name = ''You'', role = ''owner'',
                   avatarColor = ''#4f46e5'' \<rparr> ],
       projects =
         [ \<lparr> proj_id = ''proj_1'',
             title = ''Website Redesign'',
             description = ''A modern responsive redesign for marketing site. Use components, accessibility, and performance improvements.'',
             proj_image = None,
             tags = [''frontend'', ''react'', ''design''],
             board =
               \<lparr> columns =
                   [ \<lparr> col_id = ''todo'', col_title = ''To Do'', cardIds = [''c1'', ''c2''] \<rparr>,
                     \<lparr> col_id = ''inprogress'', col_title = ''In Progress'', cardIds = [''c3''] \<rparr>,
                     \<lparr> col_id = ''done'', col_title = ''Done'', cardIds = [] \<rparr> ],
                 cards =
                   [ (''c1'', [ (''id'', JString ''c1''), (''title'', JString ''Landing hero''),
                               (''body'', JString ''Create a performant hero with LCP under 1.2s''),
                               (''assignee'', JString ''u_me''),
                               (''priority'', JNumber (Num_Finite 2)) ]),
                     (''c2'', [ (''id'', JString ''c2''), (''title'', JString ''Nav accessibility''),
                               (''body'', JString ''Ensure keyboard nav and ARIA roles.''),
                               (''assignee'', JNull),
                               (''priority'', JNumber (Num_Finite 1)) ]),
                     (''c3'', [ (''id'', JString ''c3''), (''title'', JString ''Mobile css fixes''),
                               (''body'', JString ''Fix flexflow on small screens.''),
                               (''assignee'', JString ''u_me''),
                               (''priority'', JNumber (Num_Finite 3)) ]) ] \<rparr> \<rparr> ] \<rparr>"

section \<open>Board operations\<close>

subsection \<open>addCard\<close>

text \<open>The callback of \<open>p.board.columns.map\<close> in \<open>addCard\<close>.\<close>

definition addCard_column :: "string \<Rightarrow> string \<Rightarrow> column \<Rightarrow> column" where
  "addCard_column columnId cardId col =
     (if col_id col = columnId then col\<lparr>cardIds := cardId # cardIds col\<rparr> else col)"

text \<open>The object \<open>addCard\<close> builds for a project whose id matches, \<open>cardId\<close> being the
  result of \<open>uid("c")\<close>. The card stored is \<open>{ id: cardId, ...card }\<close>.\<close>

definition addCard_project :: "string \<Rightarrow> string \<Rightarrow> obj \<Rightarrow> project \<Rightarrow> project" where
  "addCard_project cardId columnId cardObj p =
     p\<lparr>board := (board p)
        \<lparr>columns := map (addCard_column columnId cardId) (columns (board p)),
         cards := AList.update cardId (spread [(''id'', JString cardId)] cardObj) (cards (board p))\<rparr>\<rparr>"

text \<open>\<open>d.projects.map\<close> in \<open>addCard\<close>. \<open>uid\<close> is called inside the callback, once for
  each project whose id matches: \<open>rnd k\<close> is the segment sampled for the project at
  position \<open>k\<close> of the list.\<close>

fun addCard_projects ::
  "(nat \<Rightarrow> string) \<Rightarrow> nat \<Rightarrow> string \<Rightarrow> string \<Rightarrow> obj \<Rightarrow> project list \<Rightarrow> project list" where
  "addCard_projects rnd k projectId columnId cardObj [] = []"
| "addCard_projects rnd k projectId columnId cardObj (p # ps) =
     (if proj_id p \<noteq> projectId then p
      else addCard_project (uid ''c'' (rnd k)) columnId cardObj p)
     # addCard_projects rnd (Suc k) projectId columnId cardObj ps"

definition addCard ::
  "(nat \<Rightarrow> string) \<Rightarrow> string \<Rightarrow> string \<Rightarrow> obj \<Rightarrow> workspace \<Rightarrow> workspace" where
  "addCard rnd projectId columnId cardObj d =
     d\<lparr>projects := addCard_projects rnd 0 projectId columnId cardObj (projects d)\<rparr>"

subsection \<open>moveCard\<close>

text \<open>\<open>newArr.splice(toIndex, 0, cardId)\<close> on a copy of the list: a negative start counts
  from the end and stops at 0, a start beyond the length is the length.\<close>

definition splice_insert :: "int \<Rightarrow> 'a \<Rightarrow> 'a list \<Rightarrow> 'a list" where
  "splice_insert toIndex x xs =
     (let len = int (length xs);
          start = (if toIndex < 0 then max (len + toIndex) 0 else min toIndex len)
      in take (nat start) xs @ [x] @ drop (nat start) xs)"

text \<open>The callback of \<open>p.board.columns.map\<close> in \<open>moveCard\<close>: the test for the source
  column comes first.\<close>

definition moveCard_column :: "string \<Rightarrow> string \<Rightarrow> string \<Rightarrow> int \<Rightarrow> column \<Rightarrow> column" where
  "moveCard_column fromColId toColId cardId toIndex col =
     (if col_id col = fromColId then col\<lparr>cardIds := filter (\<lambda>i. i \<noteq> cardId) (cardIds col)\<rparr>
      else if col_id col = toColId then col\<lparr>cardIds := splice_insert toIndex cardId (cardIds col)\<rparr>
      else col)"

definition moveCard_project :: "string \<Rightarrow> string \<Rightarrow> string \<Rightarrow> int \<Rightarrow> project \<Rightarrow> project" where
  "moveCard_project fromColId toColId cardId toIndex p =
     p\<lparr>board := (board p)
        \<lparr>columns := map (moveCard_column fromColId toColId cardId toIndex) (columns (board p))\<rparr>\<rparr>"

text \<open>\<open>moveCard(projectId, fromColId, toColId, cardId, toIndex = 0)\<close>; a caller that leaves
  \<open>toIndex\<close> out passes 0 here.\<close>

definition moveCard :: "string \<Rightarrow> string \<Rightarrow> string \<Rightarrow> string \<Rightarrow> int \<Rightarrow> workspace \<Rightarrow> workspace" where
  "moveCard projectId fromColId toColId cardId toIndex d =
     d\<lparr>projects := map (\<lambda>p. if proj_id p \<noteq> projectId then p
                            else moveCard_project fromColId toColId cardId toIndex p)
                      (projects d)\<rparr>"

subsection \<open>updateCard\<close>

text \<open>\<open>{ ...p.board.cards, [cardId]: { ...p.board.cards[cardId], ...patch } }\<close>: a key
  that is not in \<open>cards\<close> reads as \<open>undefined\<close>, and spreading \<open>undefined\<close> copies
  nothing. A card id that is not yet a key is written after the keys that are there (in
  JavaScript an integer-like card id would be enumerated before them: the ids that \<open>uid\<close>
  makes, \<open>c_\<close> and a segment, are not integer-like).\<close>

definition updateCard_project :: "string \<Rightarrow> obj \<Rightarrow> project \<Rightarrow> project" where
  "updateCard_project cardId patch p =
     p\<lparr>board := (board p)
        \<lparr>cards := AList.update cardId
                    (spread (case map_of (cards (board p)) cardId of None \<Rightarrow> [] | Some c \<Rightarrow> c) patch)
                    (cards (board p))\<rparr>\<rparr>"

definition updateCard :: "string \<Rightarrow> string \<Rightarrow> obj \<Rightarrow> workspace \<Rightarrow> workspace" where
  "updateCard projectId cardId patch d =
     d\<lparr>projects := map (\<lambda>p. if proj_id p \<noteq> projectId then p else updateCard_project cardId patch p)
                      (projects d)\<rparr>"

section \<open>The board invariant\<close>

text \<open>
  The invariant of the data model, in its words: each card id (a key of \<open>cards\<close>) appears
  in exactly one column's list, and every id in every column's list is a key of \<open>cards\<close>.
\<close>

definition card_keys :: "board \<Rightarrow> string list" where
  "card_keys b = map fst (cards b)"

definition columns_holding :: "board \<Rightarrow> string \<Rightarrow> column list" where
  "columns_holding b k = filter (\<lambda>col. k \<in> set (cardIds col)) (columns b)"

definition board_invariant :: "board \<Rightarrow> bool" where
  "board_invariant b \<longleftrightarrow>
     (\<forall>k \<in> set (card_keys b). length (columns_holding b k) = 1) \<and>
     (\<forall>col \<in> set (columns b). \<forall>k \<in> set (cardIds col). k \<in> set (card_keys b))"

definition workspace_invariant :: "workspace \<Rightarrow> bool" where
  "workspace_invariant d \<longleftrightarrow> (\<forall>p \<in> set (projects d). board_invariant (board p))"

section \<open>Columns and membership\<close>

text \<open>A card is a member of the column \<open>colId\<close> of a board: the board has one column of
  that id, and the card's id is in its list.\<close>

definition member_of_column :: "board \<Rightarrow> string \<Rightarrow> string \<Rightarrow> bool" where
  "member_of_column b colId cardId =
     (case filter (\<lambda>c. col_id c = colId) (columns b) of
        [col] \<Rightarrow> cardId \<in> set (cardIds col)
      | _ \<Rightarrow> False)"

text \<open>Which card belongs to which column, positions within a column left out.\<close>

definition membership :: "board \<Rightarrow> (string \<times> string set) list" where
  "membership b = map (\<lambda>col. (col_id col, set (cardIds col))) (columns b)"

definition has_one_column :: "board \<Rightarrow> string \<Rightarrow> bool" where
  "has_one_column b colId \<longleftrightarrow> length (filter (\<lambda>c. col_id c = colId) (columns b)) = 1"

section \<open>Sequences of board operations\<close>

datatype operation =
    AddCard "nat \<Rightarrow> string" string string obj
  | MoveCard string string string string int

fun apply_operation :: "operation \<Rightarrow> workspace \<Rightarrow> workspace" where
  "apply_operation (AddCard rnd projectId columnId cardObj) d = addCard rnd projectId columnId cardObj d"
| "apply_operation (MoveCard projectId fromColId toColId cardId toIndex) d =
     moveCard projectId fromColId toColId cardId toIndex d"

definition run :: "operation list \<Rightarrow> workspace \<Rightarrow> workspace" where
  "run ops d = fold apply_operation ops d"

text \<open>
  The calls the program itself makes keep the invariant by construction: \<open>handleAdd\<close> adds a
  card to a column that the board shows, under an id that \<open>uid\<close> has just sampled, and
  \<open>onDropCard\<close> moves a card that was dragged out of its column to another column of the
  board (it returns early when source and target are the same column). An operation is
  \<open>by_construction\<close> in a workspace when, in every project it touches, the sampled id is
  not yet a key of \<open>cards\<close> and the target column is a column of the board
  (\<open>addCard\<close>), or the card is a member of the source column, the target column is a
  column of the board, and the two differ (\<open>moveCard\<close>).
\<close>

fun by_construction :: "operation \<Rightarrow> workspace \<Rightarrow> bool" where
  "by_construction (AddCard rnd projectId columnId cardObj) d \<longleftrightarrow>
     (\<forall>k \<in> set [0 ..< length (projects d)]. proj_id (projects d ! k) = projectId \<longrightarrow>
        uid ''c'' (rnd k) \<notin> set (card_keys (board (projects d ! k))) \<and>
        has_one_column (board (projects d ! k)) columnId)"
| "by_construction (MoveCard projectId fromColId toColId cardId toIndex) d \<longleftrightarrow>
     (\<forall>p \<in> set (projects d). proj_id p = projectId \<longrightarrow>
        fromColId \<noteq> toColId \<and>
        member_of_column (board p) fromColId cardId \<and>
        has_one_column (board p) toColId)"

fun all_by_construction :: "operation list \<Rightarrow> workspace \<Rightarrow> bool" where
  "all_by_construction [] d \<longleftrightarrow> True"
| "all_by_construction (x # xs) d \<longleftrightarrow>
     by_construction x d \<and> all_by_construction xs (apply_operation x d)"

section \<open>Regular expressions\<close>

text \<open>
  \<open>renderMarkdown\<close> is a sequence of \<open>String.prototype.replace\<close> calls with regular
  expressions. The expressions are kept as data and run by a backtracking matcher, so that
  each one can be read against the literal in the source. A string is a list of 8-bit
  characters: the model covers texts whose code units are below 256. Of the flags the
  source uses, \<open>g\<close> is the loop of \<open>replace_from\<close>, \<open>m\<close> is the meaning of \<open>Bol\<close> and
  \<open>Eol\<close> (every \<open>^\<close> and \<open>$\<close> of the source stands under \<open>m\<close>), and \<open>i\<close> changes nothing,
  since no expression contains a letter.
\<close>

definition line_terminator :: "char \<Rightarrow> bool" where
  "line_terminator c \<longleftrightarrow> c = CHR 0x0A \<or> c = CHR 0x0D"

text \<open>The characters below 256 that \<open>\s\<close> matches.\<close>

definition white_space :: "char \<Rightarrow> bool" where
  "white_space c \<longleftrightarrow> c \<in> set [CHR 0x09, CHR 0x0A, CHR 0x0B, CHR 0x0C, CHR 0x0D, CHR 0x20, CHR 0xA0]"

text \<open>One character: a literal, \<open>[\s\S]\<close>, \<open>.\<close>, \<open>\s\<close>, or a negated class \<open>[^...]\<close>.\<close>

datatype charset = Chr char | AnyChar | Dot | WhiteSpace | NoneOf "char list"

fun in_charset :: "charset \<Rightarrow> char \<Rightarrow> bool" where
  "in_charset (Chr x) c \<longleftrightarrow> c = x"
| "in_charset AnyChar c \<longleftrightarrow> True"
| "in_charset Dot c \<longleftrightarrow> \<not> line_terminator c"
| "in_charset WhiteSpace c \<longleftrightarrow> white_space c"
| "in_charset (NoneOf xs) c \<longleftrightarrow> c \<notin> set xs"

text \<open>\<open>Lit\<close> is a sequence of literal characters, \<open>Star\<close> the greedy and \<open>LazyStar\<close> the
  lazy \<open>*\<close>, \<open>Group n\<close> the \<open>n\<close>-th capturing group.\<close>

datatype regex =
    Atom charset
  | Lit string
  | Bol
  | Eol
  | Seq regex regex
  | Alt regex regex
  | Star regex
  | LazyStar regex
  | Group nat regex

text \<open>
  A state of the matcher: the character before the current position (none at the start of
  the text), the text from the current position on, and the groups captured so far. \<open>ms r st\<close>
  lists the states in which a match of \<open>r\<close> from \<open>st\<close> can end, in the order in which
  backtracking tries them: the first one is the match that JavaScript reports. An iteration
  of \<open>*\<close> that consumes nothing is dropped, as in the language.
\<close>

type_synonym captures = "(nat \<times> string) list"
type_synonym mstate = "char option \<times> string \<times> captures"

function ms :: "regex \<Rightarrow> mstate \<Rightarrow> mstate list" where
  "ms (Atom cs) (p, inp, caps) =
     (case inp of [] \<Rightarrow> [] | c # rest \<Rightarrow> if in_charset cs c then [(Some c, rest, caps)] else [])"
| "ms (Lit t) (p, inp, caps) =
     (if prefix t inp then [(if t = [] then p else Some (last t), drop (length t) inp, caps)] else [])"
| "ms Bol (p, inp, caps) =
     (case p of None \<Rightarrow> [(p, inp, caps)]
      | Some c \<Rightarrow> if line_terminator c then [(p, inp, caps)] else [])"
| "ms Eol (p, inp, caps) =
     (case inp of [] \<Rightarrow> [(p, inp, caps)]
      | c # rest \<Rightarrow> if line_terminator c then [(p, inp, caps)] else [])"
| "ms (Seq a b) st = concat (map (ms b) (ms a st))"
| "ms (Alt a b) st = ms a st @ ms b st"
| "ms (Star a) (p, inp, caps) =
     concat (map (\<lambda>(p', inp', caps'). if length inp' < length inp then ms (Star a) (p', inp', caps') else [])
                 (ms a (p, inp, caps)))
     @ [(p, inp, caps)]"
| "ms (LazyStar a) (p, inp, caps) =
     (p, inp, caps) #
     concat (map (\<lambda>(p', inp', caps'). if length inp' < length inp then ms (LazyStar a) (p', inp', caps') else [])
                 (ms a (p, inp, caps)))"
| "ms (Group n a) (p, inp, caps) =
     map (\<lambda>(p', inp', caps'). (p', inp', (n, take (length inp - length inp') inp) # caps'))
         (ms a (p, inp, caps))"
  by pat_completeness auto
termination
  by (relation "inv_image (measure size <*lex*> measure length) (\<lambda>(r, p, inp, caps). (r, inp))") auto


definition Plus :: "regex \<Rightarrow> regex" where
  "Plus a = Seq a (Star a)"

text \<open>The first match that starts at the current position.\<close>

definition exec_at :: "regex \<Rightarrow> char option \<Rightarrow> string \<Rightarrow> mstate option" where
  "exec_at r p inp = (case ms r (p, inp, []) of [] \<Rightarrow> None | st # _ \<Rightarrow> Some st)"

text \<open>A replacement: literal text and references \<open>$n\<close> to groups. A group that did not take
  part in the match is replaced by the empty string.\<close>

datatype part = Text string | Ref nat

fun expand :: "part list \<Rightarrow> captures \<Rightarrow> string" where
  "expand [] caps = []"
| "expand (Text t # ps) caps = t @ expand ps caps"
| "expand (Ref n # ps) caps = (case map_of caps n of None \<Rightarrow> [] | Some t \<Rightarrow> t) @ expand ps caps"

text \<open>
  \<open>text.replace(r, t)\<close> for a global \<open>r\<close>: the leftmost match from the current position
  is replaced and the search goes on behind it; where no match starts, the character is
  copied. After an empty match the search moves on by one character.
\<close>

function replace_from :: "regex \<Rightarrow> part list \<Rightarrow> char option \<Rightarrow> string \<Rightarrow> string" where
  "replace_from r t p inp =
     (case exec_at r p inp of
        Some (p', inp', caps) \<Rightarrow>
          expand t caps @
          (if length inp' < length inp then replace_from r t p' inp'
           else (case inp of [] \<Rightarrow> [] | c # rest \<Rightarrow> c # replace_from r t (Some c) rest))
      | None \<Rightarrow> (case inp of [] \<Rightarrow> [] | c # rest \<Rightarrow> c # replace_from r t (Some c) rest))"
  by pat_completeness auto
termination
  by (relation "measure (\<lambda>(r, t, p, inp). length inp)") auto

declare replace_from.simps [simp del]

definition replace :: "regex \<Rightarrow> part list \<Rightarrow> string \<Rightarrow> string" where
  "replace r t s = replace_from r t None s"


section \<open>The markdown renderer\<close>

text \<open>\<open>escapeHtml\<close>: \<open>s.replace(/&/g, "&amp;").replace(/</g, "&lt;").replace(/>/g, "&gt;")\<close>.\<close>

definition escapeHtml :: "string \<Rightarrow> string" where
  "escapeHtml s =
     replace (Lit ''>'') [Text ''&gt;'']
       (replace (Lit ''<'') [Text ''&lt;'']
         (replace (Lit ''&'') [Text ''&amp;''] s))"

text \<open>Code blocks: \<open>/```([\s\S]*?)```/g\<close>; the replacement starts and ends with a line
  break.\<close>

definition code_blocks :: "string \<Rightarrow> string" where
  \<open>code_blocks text =
     replace (Seq (Lit ''```'') (Seq (Group 1 (LazyStar (Atom AnyChar))) (Lit ''```'')))
       [Text ''\<newline><pre class="rounded p-2 bg-gray-900 text-white text-sm overflow-auto"><code>'',
        Ref 1, Text ''</code></pre>\<newline>''] text\<close>

text \<open>Inline code: \<open>/`([^`]+)`/g\<close>.\<close>

definition inline_code :: "string \<Rightarrow> string" where
  \<open>inline_code text =
     replace (Seq (Lit ''`'') (Seq (Group 1 (Plus (Atom (NoneOf ''`'')))) (Lit ''`'')))
       [Text ''<code class="rounded bg-gray-200 px-1">'', Ref 1, Text ''</code>''] text\<close>

text \<open>Headings: \<open>/^### (.*$)/gim\<close>, then \<open>/^## (.*$)/gim\<close>, then \<open>/^# (.*$)/gim\<close>.\<close>

definition heading_regex :: "string \<Rightarrow> regex" where
  "heading_regex hashes = Seq Bol (Seq (Lit hashes) (Group 1 (Seq (Star (Atom Dot)) Eol)))"

definition headings :: "string \<Rightarrow> string" where
  \<open>headings text =
     replace (heading_regex ''# '') [Text ''<h1 class="text-2xl font-extrabold">'', Ref 1, Text ''</h1>'']
       (replace (heading_regex ''## '') [Text ''<h2 class="text-xl font-bold">'', Ref 1, Text ''</h2>'']
         (replace (heading_regex ''### '') [Text ''<h3 class="text-lg font-semibold">'', Ref 1, Text ''</h3>'']
            text))\<close>

text \<open>Bold, \<open>/\*\*(.*?)\*\*/gim\<close>, then italic, \<open>/\*(.*?)\*/gim\<close>.\<close>

definition bold_and_italic :: "string \<Rightarrow> string" where
  "bold_and_italic text =
     replace (Seq (Lit ''*'') (Seq (Group 1 (LazyStar (Atom Dot))) (Lit ''*'')))
       [Text ''<em>'', Ref 1, Text ''</em>'']
       (replace (Seq (Lit ''**'') (Seq (Group 1 (LazyStar (Atom Dot))) (Lit ''**'')))
          [Text ''<strong>'', Ref 1, Text ''</strong>''] text)"

text \<open>Links: \<open>/\[([^\]]+)\]\(([^)]+)\)/gim\<close>.\<close>

definition links :: "string \<Rightarrow> string" where
  \<open>links text =
     replace (Seq (Lit ''['') (Seq (Group 1 (Plus (Atom (NoneOf '']''))))
               (Seq (Lit ''](''  ) (Seq (Group 2 (Plus (Atom (NoneOf '')'')))) (Lit '')'')))))
       [Text ''<a href="'', Ref 2,
        Text ''" target="_blank" rel="noreferrer" class="underline">'', Ref 1, Text ''</a>''] text\<close>

text \<open>Unordered lists: \<open>/(^|\n)\s*-\s+(.*)/gim\<close>.\<close>

definition unordered_lists :: "string \<Rightarrow> string" where
  "unordered_lists text =
     replace (Seq (Group 1 (Alt Bol (Lit ''\<newline>'')))
               (Seq (Star (Atom WhiteSpace))
                 (Seq (Lit ''-'') (Seq (Plus (Atom WhiteSpace)) (Group 2 (Star (Atom Dot)))))))
       [Ref 1, Text ''<ul><li>'', Ref 2, Text ''</li></ul>''] text"

text \<open>Paragraphs: \<open>/\n\n+/g\<close>.\<close>

definition paragraphs :: "string \<Rightarrow> string" where
  "paragraphs text =
     replace (Seq (Lit ''\<newline>'') (Plus (Lit ''\<newline>''))) [Text ''</p><p>''] text"

definition renderMarkdown :: "string \<Rightarrow> string" where
  \<open>renderMarkdown md =
     (if md = [] then []
      else
        let text = escapeHtml md;
            text = code_blocks text;
            text = inline_code text;
            text = headings text;
            text = bold_and_italic text;
            text = links text;
            text = unordered_lists text;
            text = paragraphs text
        in ''<div class="prose max-w-none"><p>'' @ text @ ''</p></div>'')\<close>

subsection \<open>Lines and headings\<close>


text \<open>
  A text is a sequence of lines, each closed by a line terminator, and a last line.
  \<open>split_lines\<close> cuts a text at its line terminators, \<open>unlines_with\<close> puts it together
  again, and \<open>map_lines f\<close> applies \<open>f\<close> to every line of a text.
\<close>

definition unlines_with :: "(string \<times> char) list \<Rightarrow> string \<Rightarrow> string" where
  "unlines_with ls final = concat (map (\<lambda>(l, t). l @ [t]) ls) @ final"

fun split_lines :: "string \<Rightarrow> (string \<times> char) list \<times> string" where
  "split_lines [] = ([], [])"
| "split_lines (c # cs) =
     (case split_lines cs of
        (ls, final) \<Rightarrow>
          if line_terminator c then (([], c) # ls, final)
          else (case ls of
                  [] \<Rightarrow> ([], c # final)
                | (l, t) # ls' \<Rightarrow> ((c # l, t) # ls', final)))"

definition map_lines :: "(string \<Rightarrow> string) \<Rightarrow> string \<Rightarrow> string" where
  "map_lines f text =
     (case split_lines text of
        (ls, final) \<Rightarrow> unlines_with (map (\<lambda>(l, t). (f l, t)) ls) (f final))"

text \<open>What the three heading replacements make of one line: a line is a heading when it
  begins with the hashes and one space, at its very first character.\<close>

definition heading_line :: "string \<Rightarrow> string" where
  \<open>heading_line l =
     (if prefix ''### '' l then ''<h3 class="text-lg font-semibold">'' @ drop 4 l @ ''</h3>''
      else if prefix ''## '' l then ''<h2 class="text-xl font-bold">'' @ drop 3 l @ ''</h2>''
      else if prefix ''# '' l then ''<h1 class="text-2xl font-extrabold">'' @ drop 2 l @ ''</h1>''
      else l)\<close>

definition heading_of :: "string \<Rightarrow> string \<Rightarrow> string \<Rightarrow> string \<Rightarrow> string" where
  "heading_of h opn cls l = (if prefix h l then opn @ drop (length h) l @ cls else l)"

definition at_line_start :: "char option \<Rightarrow> bool" where
  "at_line_start p = (case p of None \<Rightarrow> True | Some c \<Rightarrow> line_terminator c)"

definition one_line :: "string \<Rightarrow> bool" where
  "one_line l \<longleftrightarrow> (\<forall>c \<in> set l. \<not> line_terminator c)"

definition line_end :: "string \<Rightarrow> bool" where
  "line_end rest = (case rest of [] \<Rightarrow> True | t # _ \<Rightarrow> line_terminator t)"

section \<open>Export and import\<close>

text \<open>Truthiness of a value, as \<open>&&\<close> and \<open>if\<close> test it.\<close>

fun truthy :: "jsval \<Rightarrow> bool" where
  "truthy JNull \<longleftrightarrow> False"
| "truthy (JBool b) \<longleftrightarrow> b"
| "truthy (JNumber n) \<longleftrightarrow> n \<noteq> Num_NaN \<and> n \<noteq> Num_Finite 0"
| "truthy (JString s) \<longleftrightarrow> s \<noteq> []"
| "truthy (JArray xs) \<longleftrightarrow> True"
| "truthy (JObject props) \<longleftrightarrow> True"

text \<open>\<open>obj.projects\<close> for a value that is not \<open>null\<close>: only an object can have the
  property; \<open>None\<close> is \<open>undefined\<close>.\<close>

definition get_projects :: "jsval \<Rightarrow> jsval option" where
  "get_projects obj = (case obj of JObject props \<Rightarrow> map_of props ''projects'' | _ \<Rightarrow> None)"

definition has_projects_field :: "jsval \<Rightarrow> bool" where
  "has_projects_field obj = (case obj of JObject props \<Rightarrow> ''projects'' \<in> fst ` set props | _ \<Rightarrow> False)"


definition importJSON :: "(string \<Rightarrow> jsval option) \<Rightarrow> string \<Rightarrow> jsval \<Rightarrow> jsval \<times> string option" where
  "importJSON parse text data =
     (case parse text of
        None \<Rightarrow> (data, Some ''Could not parse JSON'')
      | Some obj \<Rightarrow>
          if truthy obj \<and> (case get_projects obj of None \<Rightarrow> False | Some v \<Rightarrow> truthy v)
          then (obj, None)
          else (data, Some ''Invalid file''))"

text \<open>The state as a JavaScript value: each record is the object of its fields.\<close>

definition js_of_column :: "column \<Rightarrow> jsval" where
  "js_of_column col =
     JObject [(''id'', JString (col_id col)), (''title'', JString (col_title col)),
              (''cardIds'', JArray (map JString (cardIds col)))]"

definition js_of_board :: "board \<Rightarrow> jsval" where
  "js_of_board b =
     JObject [(''columns'', JArray (map js_of_column (columns b))),
              (''cards'', JObject (map (\<lambda>(k, c). (k, JObject c)) (cards b)))]"

definition js_of_project :: "project \<Rightarrow> jsval" where
  "js_of_project p =
     JObject [(''id'', JString (proj_id p)), (''title'', JString (title p)),
              (''description'', JString (description p)),
              (''image'', (case proj_image p of None \<Rightarrow> JNull | Some uri \<Rightarrow> JString uri)),
              (''tags'', JArray (map JString (tags p))),
              (''board'', js_of_board (board p))]"

definition js_of_user :: "user \<Rightarrow> jsval" where
  "js_of_user u =
     JObject [(''id'', JString (user_id u)), (''name'', JString (user_name u)),
              (''role'', JString (role u)), (''avatarColor'', JString (avatarColor u))]"

definition js_of_workspace :: "workspace \<Rightarrow> jsval" where
  "js_of_workspace d =
     JObject [(''meta'', JObject [(''createdAt'', JNumber (createdAt (meta d))),
                                  (''name'', JString (meta_name (meta d)))]),
              (''users'', JArray (map js_of_user (users d))),
              (''projects'', JArray (map js_of_project (projects d)))]"

section \<open>A model of the JSON codec\<close>

text \<open>
  A model of the platform's \<open>JSON.stringify(value, null, 2)\<close> and \<open>JSON.parse\<close>, to have
  a codec at which export and import can be run.

  Numbers. A safe integer (an integer of absolute value at most \<open>2\<^sup>5\<^sup>3 - 1\<close>) is printed
  in decimal, and a number text that denotes a safe integer is read as that integer: every
  such integer is a double, and its shortest decimal is its own. Everything else is
  floating-point arithmetic of the platform, and is an argument of the model:
  \<open>number_text\<close> is what \<open>Number::toString\<close> prints for a finite number that is not a safe
  integer, \<open>to_double\<close> is the double (or infinity) nearest to the number that a text
  denotes. \<open>NaN\<close> and the infinities are printed as \<open>null\<close>.

  Strings are lists of 8-bit characters: \<open>JSON.parse\<close> also reads the escape of a code
  unit above 255, which has no character here and is refused.
\<close>

subsection \<open>JSON.stringify(value, null, 2)\<close>

definition digit_char :: "nat \<Rightarrow> char" where
  "digit_char n = char_of (of_char CHR ''0'' + n)"

fun digits :: "nat \<Rightarrow> string" where
  "digits n = (if n < 10 then [digit_char n] else digits (n div 10) @ [digit_char (n mod 10)])"

declare digits.simps [simp del]

definition integer_to_string :: "int \<Rightarrow> string" where
  "integer_to_string i = (if i < 0 then CHR ''-'' # digits (nat (- i)) else digits (nat i))"

definition safe_integer :: "rat \<Rightarrow> bool" where
  "safe_integer r \<longleftrightarrow> r = of_int \<lfloor>r\<rfloor> \<and> \<bar>r\<bar> \<le> 9007199254740991"

definition number_to_string :: "(rat \<Rightarrow> string) \<Rightarrow> jsnum \<Rightarrow> string" where
  "number_to_string number_text n =
     (case n of Num_NaN \<Rightarrow> ''null'' | Num_Infinity _ \<Rightarrow> ''null''
      | Num_Finite r \<Rightarrow> if safe_integer r then integer_to_string \<lfloor>r\<rfloor> else number_text r)"

definition hex_char :: "nat \<Rightarrow> char" where
  "hex_char n = (if n < 10 then digit_char n else char_of (of_char CHR ''a'' + (n - 10)))"

definition quote_char :: "char \<Rightarrow> string" where
  "quote_char c =
     (if c = CHR 0x22 then [CHR 0x5C, CHR 0x22]
      else if c = CHR 0x5C then [CHR 0x5C, CHR 0x5C]
      else if c = CHR 0x08 then [CHR 0x5C, CHR ''b'']
      else if c = CHR 0x0C then [CHR 0x5C, CHR ''f'']
      else if c = CHR 0x0A then [CHR 0x5C, CHR ''n'']
      else if c = CHR 0x0D then [CHR 0x5C, CHR ''r'']
      else if c = CHR 0x09 then [CHR 0x5C, CHR ''t'']
      else if (of_char c :: nat) < 0x20
        then [CHR 0x5C, CHR ''u'', CHR ''0'', CHR ''0'', hex_char (of_char c div 16), hex_char (of_char c mod 16)]
      else [c])"

definition quote :: "string \<Rightarrow> string" where
  "quote s = CHR 0x22 # concat (map quote_char s) @ [CHR 0x22]"

definition newline_indent :: "nat \<Rightarrow> string" where
  "newline_indent n = CHR 0x0A # replicate (2 * n) CHR '' ''"

text \<open>The text of a value at depth \<open>n\<close> of indentation; \<open>nt\<close> is \<open>number_text\<close>.\<close>

fun serialize :: "(rat \<Rightarrow> string) \<Rightarrow> nat \<Rightarrow> jsval \<Rightarrow> string"
  and serialize_elements :: "(rat \<Rightarrow> string) \<Rightarrow> nat \<Rightarrow> jsval list \<Rightarrow> string"
  and serialize_members :: "(rat \<Rightarrow> string) \<Rightarrow> nat \<Rightarrow> (string \<times> jsval) list \<Rightarrow> string" where
  "serialize nt n JNull = ''null''"
| "serialize nt n (JBool b) = (if b then ''true'' else ''false'')"
| "serialize nt n (JNumber x) = number_to_string nt x"
| "serialize nt n (JString s) = quote s"
| "serialize nt n (JArray []) = ''[]''"
| "serialize nt n (JArray (x # xs)) =
     ''['' @ newline_indent (Suc n) @ serialize nt (Suc n) x @ serialize_elements nt (Suc n) xs
     @ newline_indent n @ '']''"
| "serialize nt n (JObject []) = ''{}''"
| "serialize nt n (JObject ((k, v) # ps)) =
     ''{'' @ newline_indent (Suc n) @ quote k @ '': '' @ serialize nt (Suc n) v
     @ serialize_members nt (Suc n) ps @ newline_indent n @ ''}''"
| "serialize_elements nt n [] = []"
| "serialize_elements nt n (x # xs) =
     '','' @ newline_indent n @ serialize nt n x @ serialize_elements nt n xs"
| "serialize_members nt n [] = []"
| "serialize_members nt n ((k, v) # ps) =
     '','' @ newline_indent n @ quote k @ '': '' @ serialize nt n v @ serialize_members nt n ps"

definition JSON_stringify :: "(rat \<Rightarrow> string) \<Rightarrow> jsval \<Rightarrow> string" where
  "JSON_stringify number_text v = serialize number_text 0 v"


subsection \<open>JSON.parse\<close>

definition is_ws :: "char \<Rightarrow> bool" where
  "is_ws c \<longleftrightarrow> c = CHR '' '' \<or> c = CHR 0x09 \<or> c = CHR 0x0A \<or> c = CHR 0x0D"

definition skip_ws :: "string \<Rightarrow> string" where
  "skip_ws s = dropWhile is_ws s"

definition is_digit :: "char \<Rightarrow> bool" where
  "is_digit c \<longleftrightarrow> (of_char CHR ''0'' :: nat) \<le> of_char c \<and> (of_char c :: nat) \<le> of_char CHR ''9''"

definition digit_value :: "char \<Rightarrow> nat" where
  "digit_value c = of_char c - of_char CHR ''0''"

definition hex_value :: "char \<Rightarrow> nat option" where
  "hex_value c =
     (if is_digit c then Some (digit_value c)
      else if (of_char CHR ''a'' :: nat) \<le> of_char c \<and> (of_char c :: nat) \<le> of_char CHR ''f''
        then Some (of_char c - of_char CHR ''a'' + 10)
      else if (of_char CHR ''A'' :: nat) \<le> of_char c \<and> (of_char c :: nat) \<le> of_char CHR ''F''
        then Some (of_char c - of_char CHR ''A'' + 10)
      else None)"

definition digits_value :: "string \<Rightarrow> nat" where
  "digits_value ds = foldl (\<lambda>n c. 10 * n + digit_value c) 0 ds"

definition unescape :: "char \<Rightarrow> char option" where
  "unescape e =
     (if e = CHR 0x22 then Some (CHR 0x22)
      else if e = CHR 0x5C then Some (CHR 0x5C)
      else if e = CHR ''/'' then Some (CHR ''/'')
      else if e = CHR ''b'' then Some (CHR 0x08)
      else if e = CHR ''f'' then Some (CHR 0x0C)
      else if e = CHR ''n'' then Some (CHR 0x0A)
      else if e = CHR ''r'' then Some (CHR 0x0D)
      else if e = CHR ''t'' then Some (CHR 0x09)
      else None)"

text \<open>The characters of a string after its opening quote, up to the closing quote.\<close>

fun parse_chars :: "string \<Rightarrow> (string \<times> string) option" where
  "parse_chars [] = None"
| "parse_chars (c # cs) =
     (if c = CHR 0x22 then Some ([], cs)
      else if c = CHR 0x5C then
        (case cs of
           [] \<Rightarrow> None
         | e # cs' \<Rightarrow>
             if e = CHR ''u'' then
               (case cs' of
                  h1 # h2 # h3 # h4 # cs'' \<Rightarrow>
                    (case (hex_value h1, hex_value h2, hex_value h3, hex_value h4) of
                       (Some a, Some b, Some c, Some d) \<Rightarrow>
                         if a = 0 \<and> b = 0 then
                           (case parse_chars cs'' of
                              None \<Rightarrow> None
                            | Some (str, rest) \<Rightarrow> Some (char_of (16 * c + d) # str, rest))
                         else None
                     | _ \<Rightarrow> None)
                | _ \<Rightarrow> None)
             else
               (case unescape e of
                  None \<Rightarrow> None
                | Some x \<Rightarrow>
                    (case parse_chars cs' of
                       None \<Rightarrow> None
                     | Some (str, rest) \<Rightarrow> Some (x # str, rest))))
      else if (of_char c :: nat) < 0x20 then None
      else (case parse_chars cs of None \<Rightarrow> None | Some (str, rest) \<Rightarrow> Some (c # str, rest)))"

text \<open>A number text: \<open>-? (0 | [1-9][0-9]*) (. [0-9]+)? ([eE] [+-]? [0-9]+)?\<close>, and the
  number that it denotes. The three parts after the sign: the integer part is read by
  \<open>parse_number\<close> itself, the fraction and the exponent are optional.\<close>

definition fraction_part :: "string \<Rightarrow> (string \<times> string) option" where
  "fraction_part s =
     (case s of
        [] \<Rightarrow> Some ([], s)
      | c # cs \<Rightarrow>
          if c = CHR ''.'' then
            (if takeWhile is_digit cs = [] then None
             else Some (takeWhile is_digit cs, dropWhile is_digit cs))
          else Some ([], s))"

definition signed_digits :: "string \<Rightarrow> (int \<times> string) option" where
  "signed_digits s =
     (let (neg, ds) = (case s of
                         [] \<Rightarrow> (False, s)
                       | d # ds \<Rightarrow> if d = CHR ''-'' then (True, ds)
                                  else if d = CHR ''+'' then (False, ds) else (False, s))
      in if takeWhile is_digit ds = [] then None
         else Some ((if neg then - int (digits_value (takeWhile is_digit ds))
                     else int (digits_value (takeWhile is_digit ds))),
                    dropWhile is_digit ds))"

definition exponent_part :: "string \<Rightarrow> (int \<times> string) option" where
  "exponent_part s =
     (case s of
        [] \<Rightarrow> Some (0, s)
      | c # cs \<Rightarrow> if c = CHR ''e'' \<or> c = CHR ''E'' then signed_digits cs else Some (0, s))"

definition parse_number :: "string \<Rightarrow> (rat \<times> string) option" where
  "parse_number s =
     (let (neg, s1) = (case s of [] \<Rightarrow> (False, s)
                       | c # cs \<Rightarrow> if c = CHR ''-'' then (True, cs) else (False, s));
          ip = takeWhile is_digit s1
      in if ip = [] \<or> (1 < length ip \<and> hd ip = CHR ''0'') then None
         else
           (case fraction_part (dropWhile is_digit s1) of
              None \<Rightarrow> None
            | Some (fp, s3) \<Rightarrow>
                (case exponent_part s3 of
                   None \<Rightarrow> None
                 | Some (ex, s4) \<Rightarrow>
                     let mant = of_nat (digits_value (ip @ fp)) / (10 ^ length fp) :: rat;
                         v = (if ex < 0 then mant / 10 ^ nat (- ex) else mant * 10 ^ nat ex)
                     in Some (if neg then - v else v, s4))))"

text \<open>The value of a number text that denotes \<open>r\<close>; \<open>td\<close> is \<open>to_double\<close>.\<close>

definition number_value :: "(rat \<Rightarrow> jsnum) \<Rightarrow> rat \<Rightarrow> jsnum" where
  "number_value td r = (if safe_integer r then Num_Finite r else td r)"

text \<open>
  The recursive descent over values. The second argument bounds the number of calls; every
  call consumes at least one character, so the length of the text is enough.
\<close>

fun parse_value :: "(rat \<Rightarrow> jsnum) \<Rightarrow> nat \<Rightarrow> string \<Rightarrow> (jsval \<times> string) option"
  and parse_elements :: "(rat \<Rightarrow> jsnum) \<Rightarrow> nat \<Rightarrow> string \<Rightarrow> (jsval list \<times> string) option"
  and parse_members ::
    "(rat \<Rightarrow> jsnum) \<Rightarrow> nat \<Rightarrow> string \<Rightarrow> ((string \<times> jsval) list \<times> string) option" where
  "parse_value td 0 s = None"
| "parse_value td (Suc n) s =
     (case skip_ws s of
        [] \<Rightarrow> None
      | c # cs \<Rightarrow>
          if c = CHR 0x22 then
            (case parse_chars cs of None \<Rightarrow> None | Some (str, rest) \<Rightarrow> Some (JString str, rest))
          else if c = CHR ''['' then
            (case skip_ws cs of
               [] \<Rightarrow> None
             | d # ds \<Rightarrow>
                 if d = CHR '']'' then Some (JArray [], ds)
                 else (case parse_elements td n cs of
                         None \<Rightarrow> None | Some (vs, rest) \<Rightarrow> Some (JArray vs, rest)))
          else if c = CHR ''{'' then
            (case skip_ws cs of
               [] \<Rightarrow> None
             | d # ds \<Rightarrow>
                 if d = CHR ''}'' then Some (JObject [], ds)
                 else (case parse_members td n cs of
                         None \<Rightarrow> None
                       | Some (ps, rest) \<Rightarrow> Some (JObject (spread [] ps), rest)))
          else if prefix ''null'' (c # cs) then Some (JNull, drop 4 (c # cs))
          else if prefix ''true'' (c # cs) then Some (JBool True, drop 4 (c # cs))
          else if prefix ''false'' (c # cs) then Some (JBool False, drop 5 (c # cs))
          else (case parse_number (c # cs) of
                  None \<Rightarrow> None | Some (r, rest) \<Rightarrow> Some (JNumber (number_value td r), rest)))"
| "parse_elements td 0 s = None"
| "parse_elements td (Suc n) s =
     (case parse_value td n s of
        None \<Rightarrow> None
      | Some (v, rest) \<Rightarrow>
          (case skip_ws rest of
             [] \<Rightarrow> None
           | c # cs \<Rightarrow>
               if c = CHR '','' then
                 (case parse_elements td n cs of
                    None \<Rightarrow> None | Some (vs, rest') \<Rightarrow> Some (v # vs, rest'))
               else if c = CHR '']'' then Some ([v], cs)
               else None))"
| "parse_members td 0 s = None"
| "parse_members td (Suc n) s =
     (case skip_ws s of
        [] \<Rightarrow> None
      | q # qs \<Rightarrow>
          if q \<noteq> CHR 0x22 then None
          else
            (case parse_chars qs of
               None \<Rightarrow> None
             | Some (k, rest) \<Rightarrow>
                 (case skip_ws rest of
                    [] \<Rightarrow> None
                  | colon # rest1 \<Rightarrow>
                      if colon \<noteq> CHR '':'' then None
                      else
                        (case parse_value td n rest1 of
                           None \<Rightarrow> None
                         | Some (v, rest2) \<Rightarrow>
                             (case skip_ws rest2 of
                                [] \<Rightarrow> None
                              | c # cs \<Rightarrow>
                                  if c = CHR '','' then
                                    (case parse_members td n cs of
                                       None \<Rightarrow> None
                                     | Some (ps, rest') \<Rightarrow> Some ((k, v) # ps, rest'))
                                  else if c = CHR ''}'' then Some ([(k, v)], cs)
                                  else None)))))"

definition JSON_parse :: "(rat \<Rightarrow> jsnum) \<Rightarrow> string \<Rightarrow> jsval option" where
  "JSON_parse to_double s =
     (case parse_value to_double (Suc (length s)) s of
        None \<Rightarrow> None
      | Some (v, rest) \<Rightarrow> if skip_ws rest = [] then Some v else None)"

subsection \<open>Values that JSON represents\<close>

text \<open>
  Values that the model gives back as they are, whatever \<open>number_text\<close> and \<open>to_double\<close>:
  the numbers are safe integers, and the keys of each object are distinct, as they are in
  every JavaScript object. (The platform's codec gives back every finite number as well;
  that is a property of \<open>number_text\<close> and \<open>to_double\<close>.)
\<close>

fun json_safe :: "jsval \<Rightarrow> bool"
  and json_safe_elements :: "jsval list \<Rightarrow> bool"
  and json_safe_members :: "(string \<times> jsval) list \<Rightarrow> bool" where
  "json_safe JNull \<longleftrightarrow> True"
| "json_safe (JBool b) \<longleftrightarrow> True"
| "json_safe (JNumber x) \<longleftrightarrow> (case x of Num_Finite r \<Rightarrow> safe_integer r | _ \<Rightarrow> False)"
| "json_safe (JString s) \<longleftrightarrow> True"
| "json_safe (JArray xs) \<longleftrightarrow> json_safe_elements xs"
| "json_safe (JObject ps) \<longleftrightarrow> distinct (map fst ps) \<and> json_safe_members ps"
| "json_safe_elements [] \<longleftrightarrow> True"
| "json_safe_elements (x # xs) \<longleftrightarrow> json_safe x \<and> json_safe_elements xs"
| "json_safe_members [] \<longleftrightarrow> True"
| "json_safe_members ((k, v) # ps) \<longleftrightarrow> json_safe v \<and> json_safe_members ps"

text \<open>The number of calls the descent makes on the text of a value.\<close>

fun cost :: "jsval \<Rightarrow> nat"
  and cost_elements :: "jsval list \<Rightarrow> nat"
  and cost_members :: "(string \<times> jsval) list \<Rightarrow> nat" where
  "cost JNull = 1"
| "cost (JBool b) = 1"
| "cost (JNumber x) = 1"
| "cost (JString s) = 1"
| "cost (JArray xs) = Suc (cost_elements xs)"
| "cost (JObject ps) = Suc (cost_members ps)"
| "cost_elements [] = 0"
| "cost_elements (x # xs) = Suc (cost x + cost_elements xs)"
| "cost_members [] = 0"
| "cost_members ((k, v) # ps) = Suc (cost v + cost_members ps)"

text \<open>What may follow the text of a value: nothing, a comma or a line break.\<close>

definition delimited :: "string \<Rightarrow> bool" where
  "delimited rest = (case rest of [] \<Rightarrow> True | c # _ \<Rightarrow> c = CHR '','' \<or> c = CHR 0x0A)"

text \<open>The characters with which the text of a value can begin.\<close>

definition value_start :: "char \<Rightarrow> bool" where
  "value_start c \<longleftrightarrow> c \<in> {CHR ''n'', CHR ''t'', CHR ''f'', CHR 0x22, CHR ''['', CHR ''{'', CHR ''-''} \<or> is_digit c"

section \<open>Properties of the project operations\<close>

text \<open>
  C6. On a workspace with N projects \<open>createProject\<close> gives a workspace with N + 1
  projects: the new project stands at the head of the list, the old projects follow
  unchanged, and the new project's board has exactly the three columns todo,
  inprogress and done, in this order, each with no card ids, and no cards.
\<close>

theorem createProject_prepends_empty_board:
  "length (projects (createProject seg d)) = length (projects d) + 1
   \<and> projects (createProject seg d) = newProj seg # projects d
   \<and> map col_id (columns (board (hd (projects (createProject seg d))))) =
       [''todo'', ''inprogress'', ''done'']
   \<and> map cardIds (columns (board (hd (projects (createProject seg d))))) = [[], [], []]
   \<and> cards (board (hd (projects (createProject seg d)))) = []"
  by (simp add: createProject_def newProj_def)

section \<open>Properties of the board operations\<close>

subsection \<open>Lists of properties\<close>

lemma length_addCard_projects [simp]:
  "length (addCard_projects rnd k projectId columnId cardObj ps) = length ps"
  by (induction ps arbitrary: k) simp_all

lemma nth_addCard_projects:
  "i < length ps \<Longrightarrow>
   addCard_projects rnd k projectId columnId cardObj ps ! i =
     (if proj_id (ps ! i) \<noteq> projectId then ps ! i
      else addCard_project (uid ''c'' (rnd (k + i))) columnId cardObj (ps ! i))"
proof (induction ps arbitrary: k i)
  case Nil
  then show ?case by simp
next
  case (Cons p ps)
  show ?case
  proof (cases i)
    case 0
    then show ?thesis by simp
  next
    case (Suc j)
    with Cons.prems have "j < length ps" by simp
    from Cons.IH [OF this, of "Suc k"] Suc show ?thesis by simp
  qed
qed

lemma update_absent: "k \<notin> fst ` set al \<Longrightarrow> AList.update k v al = al @ [(k, v)]"
  by (induction al) auto

lemma map_of_spread: "map_of (spread a b) = map_of a ++ map_of (rev b)"
  unfolding spread_def
proof (induction b arbitrary: a)
  case Nil
  then show ?case by simp
next
  case (Cons x b)
  show ?case by (cases x) (simp add: Cons.IH update_conv' map_add_upd_left fun_eq_iff map_add_def split: option.splits)
qed

lemma fold_update_append:
  "distinct (map fst b) \<Longrightarrow> fst ` set a \<inter> fst ` set b = {} \<Longrightarrow>
   fold (\<lambda>(k, v). AList.update k v) b a = a @ b"
proof (induction b arbitrary: a)
  case Nil
  then show ?case by simp
next
  case (Cons x b)
  obtain k v where x: "x = (k, v)" by (cases x)
  from Cons.prems have k: "k \<notin> fst ` set a" by (auto simp: x)
  have "fold (\<lambda>(k, v). AList.update k v) b (a @ [(k, v)]) = (a @ [(k, v)]) @ b"
    using Cons.prems by (intro Cons.IH) (auto simp: x)
  then show ?case by (simp add: x update_absent [OF k])
qed

lemma spread_empty: "distinct (map fst b) \<Longrightarrow> spread [] b = b"
  using fold_update_append [of b "[]"] by (simp add: spread_def)

lemma updateCard_nth:
  "k < length (projects d) \<Longrightarrow>
   projects (updateCard projectId cardId patch d) ! k =
     (if proj_id (projects d ! k) \<noteq> projectId then projects d ! k
      else updateCard_project cardId patch (projects d ! k))"
  by (simp add: updateCard_def)

lemma moveCard_nth:
  "k < length (projects d) \<Longrightarrow>
   projects (moveCard projectId fromColId toColId cardId toIndex d) ! k =
     (if proj_id (projects d ! k) \<noteq> projectId then projects d ! k
      else moveCard_project fromColId toColId cardId toIndex (projects d ! k))"
  by (simp add: moveCard_def)

lemma addCard_nth:
  "k < length (projects d) \<Longrightarrow>
   projects (addCard rnd projectId columnId cardObj d) ! k =
     (if proj_id (projects d ! k) \<noteq> projectId then projects d ! k
      else addCard_project (uid ''c'' (rnd k)) columnId cardObj (projects d ! k))"
  by (simp add: addCard_def nth_addCard_projects)

lemma map_of_absent: "k \<notin> fst ` set al \<Longrightarrow> map_of al k = None"
  by (simp add: map_of_eq_None_iff)

subsection \<open>updateCard on a card id that is not a key\<close>

text \<open>
  C2, as amended. For a project whose id matches and a card id that is not a key of its
  \<open>cards\<close>, \<open>updateCard\<close> does create a key: the keys of the new \<open>cards\<close> are the old
  ones and the card id, the card id is bound to an object that has the properties of the
  patch and no other, and every other key is bound as it was. The patch is an object: its
  keys are distinct. The statement is on keys and values, not on the place of the new key
  among the others.
\<close>

theorem updateCard_unknown_card_creates_key:
  assumes "k < length (projects d)"
    and "proj_id (projects d ! k) = projectId"
    and "cardId \<notin> set (card_keys (board (projects d ! k)))"
    and "distinct (map fst patch)"
  shows "set (card_keys (board (projects (updateCard projectId cardId patch d) ! k)))
           = insert cardId (set (card_keys (board (projects d ! k))))
    \<and> (\<exists>c. map_of (cards (board (projects (updateCard projectId cardId patch d) ! k))) cardId = Some c
            \<and> map_of c = map_of patch)
    \<and> (\<forall>other. other \<noteq> cardId \<longrightarrow>
          map_of (cards (board (projects (updateCard projectId cardId patch d) ! k))) other
            = map_of (cards (board (projects d ! k))) other)"
proof -
  from assms(3) have absent: "cardId \<notin> fst ` set (cards (board (projects d ! k)))"
    by (simp add: card_keys_def)
  then have none: "map_of (cards (board (projects d ! k))) cardId = None"
    by (rule map_of_absent)
  have new: "cards (board (projects (updateCard projectId cardId patch d) ! k))
      = AList.update cardId patch (cards (board (projects d ! k)))"
    using assms(1,2,4) none by (simp add: updateCard_nth updateCard_project_def spread_empty)
  show ?thesis
    by (simp add: card_keys_def new dom_update update_conv')
qed

text \<open>
  C2 as stated fails on the seed data: \<open>c9\<close> is not a key of the cards of project
  \<open>proj_1\<close>, and after \<open>updateCard("proj_1", "c9", { title: "x" })\<close> it is one, so the
  cards map is not the original one.
\<close>

theorem updateCard_unknown_card_counterexample:
  "proj_id (hd (projects (sampleSeed (Num_Finite 0)))) = ''proj_1''
   \<and> ''c9'' \<notin> set (card_keys (board (hd (projects (sampleSeed (Num_Finite 0))))))
   \<and> card_keys (board (hd (projects
        (updateCard ''proj_1'' ''c9'' [(''title'', JString ''x'')] (sampleSeed (Num_Finite 0))))))
      = [''c1'', ''c2'', ''c3'', ''c9'']
   \<and> cards (board (hd (projects
        (updateCard ''proj_1'' ''c9'' [(''title'', JString ''x'')] (sampleSeed (Num_Finite 0))))))
      \<noteq> cards (board (hd (projects (sampleSeed (Num_Finite 0)))))"
  by (simp add: sampleSeed_def updateCard_def updateCard_project_def card_keys_def spread_def)

text \<open>The amended C2 on the seed data.\<close>

theorem updateCard_unknown_card_creates_key_witness:
  "set (card_keys (board (projects
      (updateCard ''proj_1'' ''c9'' [(''title'', JString ''x'')] (sampleSeed (Num_Finite 0))) ! 0)))
     = {''c1'', ''c2'', ''c3'', ''c9''}
   \<and> (\<exists>c. map_of (cards (board (projects
          (updateCard ''proj_1'' ''c9'' [(''title'', JString ''x'')] (sampleSeed (Num_Finite 0))) ! 0))) ''c9''
         = Some c \<and> map_of c = map_of [(''title'', JString ''x'')])"
  using updateCard_unknown_card_creates_key [of 0 "sampleSeed (Num_Finite 0)" "''proj_1''" "''c9''"
      "[(''title'', JString ''x'')]"]
  by (simp add: sampleSeed_def card_keys_def insert_commute)


subsection \<open>Columns under addCard and moveCard\<close>

lemma set_splice_insert [simp]: "set (splice_insert toIndex x xs) = insert x (set xs)"
proof -
  have "set (take n xs @ [x] @ drop n xs) = insert x (set xs)" for n
  proof -
    have "set (take n xs) \<union> set (drop n xs) = set xs"
      by (simp only: set_append [symmetric] append_take_drop_id)
    then show ?thesis by auto
  qed
  then show ?thesis by (simp add: splice_insert_def Let_def)
qed

lemma col_id_addCard_column [simp]: "col_id (addCard_column columnId cardId col) = col_id col"
  by (simp add: addCard_column_def)

lemma col_id_moveCard_column [simp]:
  "col_id (moveCard_column fromColId toColId cardId toIndex col) = col_id col"
  by (simp add: moveCard_column_def)

lemma set_cardIds_addCard_column:
  "set (cardIds (addCard_column columnId cardId col)) =
     (if col_id col = columnId then insert cardId (set (cardIds col)) else set (cardIds col))"
  by (simp add: addCard_column_def)

lemma set_cardIds_moveCard_column:
  "set (cardIds (moveCard_column fromColId toColId cardId toIndex col)) =
     (if col_id col = fromColId then set (cardIds col) - {cardId}
      else if col_id col = toColId then insert cardId (set (cardIds col))
      else set (cardIds col))"
  by (auto simp add: moveCard_column_def)

lemma board_addCard_project [simp]:
  "columns (board (addCard_project cardId columnId cardObj p)) =
     map (addCard_column columnId cardId) (columns (board p))"
  "cards (board (addCard_project cardId columnId cardObj p)) =
     AList.update cardId (spread [(''id'', JString cardId)] cardObj) (cards (board p))"
  "proj_id (addCard_project cardId columnId cardObj p) = proj_id p"
  by (simp_all add: addCard_project_def)

lemma board_moveCard_project [simp]:
  "columns (board (moveCard_project fromColId toColId cardId toIndex p)) =
     map (moveCard_column fromColId toColId cardId toIndex) (columns (board p))"
  "cards (board (moveCard_project fromColId toColId cardId toIndex p)) = cards (board p)"
  "proj_id (moveCard_project fromColId toColId cardId toIndex p) = proj_id p"
  by (simp_all add: moveCard_project_def)

lemma singleton_list_unique:
  "length xs = 1 \<Longrightarrow> a \<in> set xs \<Longrightarrow> b \<in> set xs \<Longrightarrow> a = b"
  by (cases xs) auto

lemma holding_unique:
  assumes "board_invariant b"
    and "x \<in> set (columns b)" and "y \<in> set (columns b)"
    and "k \<in> set (cardIds x)" and "k \<in> set (cardIds y)"
  shows "x = y"
proof -
  from assms(1,2,4) have "k \<in> set (card_keys b)"
    by (auto simp: board_invariant_def)
  with assms(1) have "length (columns_holding b k) = 1"
    by (simp add: board_invariant_def)
  moreover have "x \<in> set (columns_holding b k)" "y \<in> set (columns_holding b k)"
    using assms(2-5) by (simp_all add: columns_holding_def)
  ultimately show ?thesis by (rule singleton_list_unique)
qed

subsection \<open>addCard on a column id that the board does not have\<close>



subsection \<open>moveCard from a column to itself\<close>

text \<open>
  C10, as amended. For a project whose id matches, \<open>moveCard\<close> with the source and the
  target both \<open>c\<close> takes the source branch only: in every column of id \<open>c\<close> the card id
  is filtered out of the list and not put back; the other columns and \<open>cards\<close> are as
  they were. So, when no column of another id holds the card id, it is in no column's list
  after the call, and when it was a key of \<open>cards\<close>, it still is. The claim is the case
  of a column \<open>c\<close> whose list holds the card id.
\<close>

theorem moveCard_same_column_removes_card:
  assumes "k < length (projects d)"
    and "proj_id (projects d ! k) = projectId"
    and "\<forall>x \<in> set (columns (board (projects d ! k))). col_id x \<noteq> c \<longrightarrow> cardId \<notin> set (cardIds x)"
    and "cardId \<in> set (card_keys (board (projects d ! k)))"
  shows "columns (board (projects (moveCard projectId c c cardId toIndex d) ! k))
        = map (\<lambda>x. if col_id x = c then x\<lparr>cardIds := filter (\<lambda>i. i \<noteq> cardId) (cardIds x)\<rparr> else x)
            (columns (board (projects d ! k)))
    \<and> (\<forall>x \<in> set (columns (board (projects (moveCard projectId c c cardId toIndex d) ! k))).
          cardId \<notin> set (cardIds x))
    \<and> cards (board (projects (moveCard projectId c c cardId toIndex d) ! k))
        = cards (board (projects d ! k))
    \<and> cardId \<in> set (card_keys (board (projects (moveCard projectId c c cardId toIndex d) ! k)))"
proof -
  let ?b = "board (projects d ! k)"
  have gone: "cardId \<notin> set (cardIds (moveCard_column c c cardId toIndex x))"
    if "x \<in> set (columns ?b)" for x
    using assms(3) that by (cases "col_id x = c") (simp_all add: moveCard_column_def)
  have cols: "moveCard_column c c cardId toIndex =
      (\<lambda>x. if col_id x = c then x\<lparr>cardIds := filter (\<lambda>i. i \<noteq> cardId) (cardIds x)\<rparr> else x)"
    by (simp add: moveCard_column_def fun_eq_iff)
  show ?thesis
    using assms(1,2,4) gone
    by (simp add: moveCard_nth card_keys_def) (simp add: cols)
qed

text \<open>
  C10 as stated fails on a board that does not satisfy the invariant of the data model,
  which nothing in the program enforces (import accepts any object with a \<open>projects\<close>
  field, and \<open>moveCard\<close> inserts whatever id it is given). Here \<open>c1\<close> is in the lists of
  \<open>todo\<close> and of \<open>done\<close> and \<open>cards\<close> is empty: after \<open>moveCard("p", "todo", "todo", "c1")\<close>
  the card id is still in the list of \<open>done\<close>, and it is not a key of \<open>cards\<close>.
\<close>

theorem moveCard_same_column_counterexample:
  "(let d = \<lparr> meta = \<lparr> createdAt = Num_Finite 0, meta_name = ''w'' \<rparr>, users = [],
              projects = [ \<lparr> proj_id = ''p'', title = ''t'', description = [], proj_image = None,
                tags = [],
                board = \<lparr> columns =
                            [ \<lparr> col_id = ''todo'', col_title = ''To Do'', cardIds = [''c1''] \<rparr>,
                              \<lparr> col_id = ''done'', col_title = ''Done'', cardIds = [''c1''] \<rparr> ],
                          cards = [] \<rparr> \<rparr> ] \<rparr>
    in map proj_id (projects d) = [''p'']
       \<and> map (\<lambda>x. (col_id x, cardIds x)) (columns (board (projects d ! 0)))
           = [(''todo'', [''c1'']), (''done'', [''c1''])]
       \<and> map (\<lambda>x. (col_id x, cardIds x))
             (columns (board (projects (moveCard ''p'' ''todo'' ''todo'' ''c1'' 0 d) ! 0)))
           = [(''todo'', []), (''done'', [''c1''])]
       \<and> card_keys (board (projects (moveCard ''p'' ''todo'' ''todo'' ''c1'' 0 d) ! 0)) = [])"
  by (simp add: Let_def moveCard_def moveCard_project_def moveCard_column_def card_keys_def)

text \<open>The amended C10 on the seed data: \<open>c1\<close> moved from \<open>todo\<close> to \<open>todo\<close>.\<close>

theorem moveCard_same_column_removes_card_witness:
  "map cardIds (columns (board (projects
       (moveCard ''proj_1'' ''todo'' ''todo'' ''c1'' 0 (sampleSeed (Num_Finite 0))) ! 0)))
     = [[''c2''], [''c3''], []]
   \<and> ''c1'' \<in> set (card_keys (board (projects
       (moveCard ''proj_1'' ''todo'' ''todo'' ''c1'' 0 (sampleSeed (Num_Finite 0))) ! 0)))"
  using moveCard_same_column_removes_card [of 0 "sampleSeed (Num_Finite 0)" "''proj_1''"
      "''todo''" "''c1''" 0]
  by (simp add: sampleSeed_def card_keys_def)


subsection \<open>The invariant under addCard and moveCard\<close>

lemma member_of_columnD:
  assumes "member_of_column b colId cardId"
  obtains col where "col \<in> set (columns b)" "col_id col = colId" "cardId \<in> set (cardIds col)"
    "\<And>x. x \<in> set (columns b) \<Longrightarrow> col_id x = colId \<Longrightarrow> x = col"
proof -
  from assms obtain col where f: "filter (\<lambda>c. col_id c = colId) (columns b) = [col]"
    and m: "cardId \<in> set (cardIds col)"
    by (auto simp: member_of_column_def split: list.splits)
  have mem: "x \<in> set (columns b) \<and> col_id x = colId \<longleftrightarrow> x = col" for x
  proof -
    have "x \<in> set (filter (\<lambda>c. col_id c = colId) (columns b)) \<longleftrightarrow> x \<in> set [col]"
      by (simp only: f)
    then show ?thesis by auto
  qed
  show ?thesis
    using that [of col] m mem by blast
qed

lemma length_filter_map_cong:
  assumes "\<And>x. x \<in> set xs \<Longrightarrow> P (g x) \<longleftrightarrow> Q x"
  shows "length (filter P (map g xs)) = length (filter Q xs)"
  using assms by (induction xs) auto

lemma addCard_project_invariant:
  assumes inv: "board_invariant (board p)"
    and fresh: "cardId \<notin> set (card_keys (board p))"
    and one: "has_one_column (board p) columnId"
  shows "board_invariant (board (addCard_project cardId columnId cardObj p))"
proof -
  let ?b = "board p" and ?b' = "board (addCard_project cardId columnId cardObj p)"
  have keys: "set (card_keys ?b') = insert cardId (set (card_keys ?b))"
    by (simp add: card_keys_def dom_update)
  have unheld: "cardId \<notin> set (cardIds x)" if "x \<in> set (columns ?b)" for x
    using inv fresh that by (auto simp: board_invariant_def)
  from one have one': "length (filter (\<lambda>c. col_id c = columnId) (columns ?b)) = 1"
    by (simp add: has_one_column_def)
  have "length (columns_holding ?b' k) = 1" if "k \<in> set (card_keys ?b')" for k
  proof (cases "k = cardId")
    case True
    have "length (columns_holding ?b' k) = length (filter (\<lambda>c. col_id c = columnId) (columns ?b))"
      unfolding columns_holding_def board_addCard_project
      by (rule length_filter_map_cong) (simp add: set_cardIds_addCard_column True unheld)
    with one' show ?thesis by simp
  next
    case False
    with that keys have old: "k \<in> set (card_keys ?b)" by simp
    have "length (columns_holding ?b' k) = length (columns_holding ?b k)"
      unfolding columns_holding_def board_addCard_project
      by (rule length_filter_map_cong) (simp add: set_cardIds_addCard_column False)
    with inv old show ?thesis by (simp add: board_invariant_def)
  qed
  moreover have "k \<in> set (card_keys ?b')"
    if "x \<in> set (columns ?b')" "k \<in> set (cardIds x)" for x k
  proof -
    from that(1) obtain y where y: "y \<in> set (columns ?b)" "x = addCard_column columnId cardId y"
      by auto
    with that(2) have "k = cardId \<or> k \<in> set (cardIds y)"
      by (auto simp: set_cardIds_addCard_column split: if_splits)
    with inv y(1) keys show ?thesis by (auto simp: board_invariant_def)
  qed
  ultimately show ?thesis unfolding board_invariant_def by blast
qed

lemma moveCard_project_invariant:
  assumes inv: "board_invariant (board p)"
    and ne: "fromColId \<noteq> toColId"
    and mem: "member_of_column (board p) fromColId cardId"
    and one: "has_one_column (board p) toColId"
  shows "board_invariant (board (moveCard_project fromColId toColId cardId toIndex p))"
proof -
  let ?b = "board p" and ?b' = "board (moveCard_project fromColId toColId cardId toIndex p)"
  from mem obtain src where src: "src \<in> set (columns ?b)" "col_id src = fromColId"
      "cardId \<in> set (cardIds src)"
    by (rule member_of_columnD)
  have keys: "card_keys ?b' = card_keys ?b"
    by (simp add: card_keys_def)
  from inv src have key: "cardId \<in> set (card_keys ?b)"
    by (auto simp: board_invariant_def)
  have elsewhere: "cardId \<notin> set (cardIds x)" if "x \<in> set (columns ?b)" "col_id x \<noteq> fromColId" for x
  proof
    assume "cardId \<in> set (cardIds x)"
    with inv that(1) src have "x = src" by (auto intro: holding_unique)
    with that(2) src(2) show False by simp
  qed
  from one have one': "length (filter (\<lambda>c. col_id c = toColId) (columns ?b)) = 1"
    by (simp add: has_one_column_def)
  have "length (columns_holding ?b' k) = 1" if "k \<in> set (card_keys ?b')" for k
  proof (cases "k = cardId")
    case True
    have "length (columns_holding ?b' k) = length (filter (\<lambda>c. col_id c = toColId) (columns ?b))"
      unfolding columns_holding_def board_moveCard_project
      by (rule length_filter_map_cong) (use ne elsewhere in \<open>auto simp: set_cardIds_moveCard_column True\<close>)
    with one' show ?thesis by simp
  next
    case False
    have "length (columns_holding ?b' k) = length (columns_holding ?b k)"
      unfolding columns_holding_def board_moveCard_project
      by (rule length_filter_map_cong) (simp add: set_cardIds_moveCard_column False)
    with inv that keys show ?thesis by (simp add: board_invariant_def)
  qed
  moreover have "k \<in> set (card_keys ?b')"
    if "x \<in> set (columns ?b')" "k \<in> set (cardIds x)" for x k
  proof -
    from that(1) obtain y where y: "y \<in> set (columns ?b)"
        "x = moveCard_column fromColId toColId cardId toIndex y"
      by auto
    with that(2) have "k = cardId \<or> k \<in> set (cardIds y)"
      by (auto simp: set_cardIds_moveCard_column split: if_splits)
    with inv y(1) keys key show ?thesis by (auto simp: board_invariant_def)
  qed
  ultimately show ?thesis unfolding board_invariant_def by blast
qed

lemma workspace_invariant_nth:
  "workspace_invariant d \<longleftrightarrow> (\<forall>k < length (projects d). board_invariant (board (projects d ! k)))"
  unfolding workspace_invariant_def by (metis in_set_conv_nth)

lemma length_projects_addCard [simp]:
  "length (projects (addCard rnd projectId columnId cardObj d)) = length (projects d)"
  by (simp add: addCard_def)

lemma length_projects_moveCard [simp]:
  "length (projects (moveCard projectId fromColId toColId cardId toIndex d)) = length (projects d)"
  by (simp add: moveCard_def)

lemma apply_operation_invariant:
  assumes "workspace_invariant d" and "by_construction x d"
  shows "workspace_invariant (apply_operation x d)"
proof (cases x)
  case (AddCard rnd projectId columnId cardObj)
  show ?thesis
    unfolding workspace_invariant_nth AddCard apply_operation.simps
  proof (intro allI impI)
    fix k assume "k < length (projects (addCard rnd projectId columnId cardObj d))"
    then have k: "k < length (projects d)" by simp
    with assms(1) have inv: "board_invariant (board (projects d ! k))"
      by (simp add: workspace_invariant_nth)
    show "board_invariant (board (projects (addCard rnd projectId columnId cardObj d) ! k))"
    proof (cases "proj_id (projects d ! k) = projectId")
      case True
      with assms(2) k have "uid ''c'' (rnd k) \<notin> set (card_keys (board (projects d ! k)))"
        and "has_one_column (board (projects d ! k)) columnId"
        by (simp_all add: AddCard)
      with inv True k show ?thesis
        by (simp add: addCard_nth addCard_project_invariant)
    next
      case False
      with inv k show ?thesis by (simp add: addCard_nth)
    qed
  qed
next
  case (MoveCard projectId fromColId toColId cardId toIndex)
  show ?thesis
    unfolding workspace_invariant_nth MoveCard apply_operation.simps
  proof (intro allI impI)
    fix k assume "k < length (projects (moveCard projectId fromColId toColId cardId toIndex d))"
    then have k: "k < length (projects d)" by simp
    with assms(1) have inv: "board_invariant (board (projects d ! k))"
      by (simp add: workspace_invariant_nth)
    show "board_invariant (board (projects (moveCard projectId fromColId toColId cardId toIndex d) ! k))"
    proof (cases "proj_id (projects d ! k) = projectId")
      case True
      moreover from k have "projects d ! k \<in> set (projects d)" by simp
      ultimately have "fromColId \<noteq> toColId"
        and "member_of_column (board (projects d ! k)) fromColId cardId"
        and "has_one_column (board (projects d ! k)) toColId"
        using assms(2) by (auto simp: MoveCard)
      with inv True k show ?thesis
        by (simp add: moveCard_nth moveCard_project_invariant)
    next
      case False
      with inv k show ?thesis by (simp add: moveCard_nth)
    qed
  qed
qed

lemma run_Cons [simp]: "run (x # xs) d = run xs (apply_operation x d)"
  by (simp add: run_def)

lemma run_Nil [simp]: "run [] d = d"
  by (simp add: run_def)

text \<open>
  C1, as amended. Starting from a workspace whose boards satisfy the invariant, after each
  operation of a sequence of \<open>addCard\<close> and \<open>moveCard\<close> operations the boards satisfy
  the invariant, provided each operation is by construction in the workspace it is applied
  to: \<open>addCard\<close> names a column of the project's board and its generated id is not yet a
  key of \<open>cards\<close>; \<open>moveCard\<close> names a source column that holds the card and a
  different target column of the board.
\<close>

theorem invariant_after_each_operation_by_construction:
  assumes "workspace_invariant d" and "all_by_construction ops d"
  shows "\<forall>n \<le> length ops. workspace_invariant (run (take n ops) d)"
  using assms
proof (induction ops arbitrary: d)
  case Nil
  then show ?case by simp
next
  case (Cons x xs)
  from Cons.prems have step: "workspace_invariant (apply_operation x d)"
    and rest: "all_by_construction xs (apply_operation x d)"
    by (simp_all add: apply_operation_invariant)
  show ?case
  proof (intro allI impI)
    fix n assume n: "n \<le> length (x # xs)"
    show "workspace_invariant (run (take n (x # xs)) d)"
    proof (cases n)
      case 0
      with Cons.prems(1) show ?thesis by simp
    next
      case (Suc m)
      with n have "m \<le> length xs" by simp
      with Cons.IH [OF step rest] Suc show ?thesis by simp
    qed
  qed
qed


text \<open>
  C1 as stated, for arbitrary arguments, fails on the seed data, whose board satisfies the
  invariant: \<open>moveCard("proj_1", "todo", "done", "c3", 0)\<close> names a source column that
  does not hold \<open>c3\<close>, so \<open>c3\<close> stays in \<open>inprogress\<close> and is also put into \<open>done\<close>.
\<close>

theorem invariant_broken_by_moveCard_counterexample:
  "workspace_invariant (sampleSeed (Num_Finite 0))
   \<and> \<not> workspace_invariant
        (run [MoveCard ''proj_1'' ''todo'' ''done'' ''c3'' 0] (sampleSeed (Num_Finite 0)))"
  by (simp add: workspace_invariant_def board_invariant_def columns_holding_def card_keys_def
      sampleSeed_def moveCard_def moveCard_project_def moveCard_column_def splice_insert_def)

text \<open>The amended C1 on the seed data: a card is added to \<open>todo\<close>, then \<open>c1\<close> is moved
  from \<open>todo\<close> to \<open>done\<close>.\<close>

theorem invariant_after_each_operation_by_construction_witness:
  "workspace_invariant (sampleSeed (Num_Finite 0))
   \<and> all_by_construction
        [AddCard (\<lambda>k. ''abc1234'') ''proj_1'' ''todo'' [(''title'', JString ''t'')],
         MoveCard ''proj_1'' ''todo'' ''done'' ''c1'' 0] (sampleSeed (Num_Finite 0))
   \<and> workspace_invariant
        (run [AddCard (\<lambda>k. ''abc1234'') ''proj_1'' ''todo'' [(''title'', JString ''t'')],
              MoveCard ''proj_1'' ''todo'' ''done'' ''c1'' 0] (sampleSeed (Num_Finite 0)))"
proof -
  let ?d = "sampleSeed (Num_Finite 0)"
  let ?ops = "[AddCard (\<lambda>k. ''abc1234'') ''proj_1'' ''todo'' [(''title'', JString ''t'')],
               MoveCard ''proj_1'' ''todo'' ''done'' ''c1'' 0]"
  have inv: "workspace_invariant ?d"
    by (simp add: workspace_invariant_def board_invariant_def columns_holding_def card_keys_def
        sampleSeed_def)
  have ok: "all_by_construction ?ops ?d"
    by (simp add: sampleSeed_def card_keys_def has_one_column_def member_of_column_def uid_def
        addCard_def addCard_project_def addCard_column_def)
  from invariant_after_each_operation_by_construction [OF inv ok]
  have "2 \<le> length ?ops \<longrightarrow> workspace_invariant (run (take 2 ?ops) ?d)" by (rule spec)
  then have "workspace_invariant (run ?ops ?d)" by simp
  with inv ok show ?thesis by (simp only: simp_thms)
qed

subsection \<open>Moving a card there and back\<close>

lemma moveCard_column_there_and_back:
  assumes "col_id x = fromColId \<Longrightarrow> cardId \<in> set (cardIds x)"
    and "col_id x = toColId \<Longrightarrow> cardId \<notin> set (cardIds x)"
  shows "set (cardIds (moveCard_column toColId fromColId cardId j
                (moveCard_column fromColId toColId cardId i x))) = set (cardIds x)"
  using assms by (auto simp: set_cardIds_moveCard_column)

text \<open>
  C7, as amended. In a workspace in which, for the projects of id \<open>projectId\<close>, the card
  is in the list of the source column (of every column that has the source id) and in the
  list of no column that has the target id, moving the card to the target and then back
  restores, in every project, which card belongs to which column. The claim is the case of
  card \<open>c1\<close>, columns \<open>todo\<close> and \<open>done\<close>, and index 0 both times. The position of the card
  within its column is not restored in general: it comes back at the index of the second
  call.
\<close>

theorem moveCard_there_and_back_keeps_membership:
  assumes "\<forall>p \<in> set (projects d). proj_id p = projectId \<longrightarrow>
             (\<forall>col \<in> set (columns (board p)).
                (col_id col = fromColId \<longrightarrow> cardId \<in> set (cardIds col)) \<and>
                (col_id col = toColId \<longrightarrow> cardId \<notin> set (cardIds col)))"
  shows "map (\<lambda>p. membership (board p))
           (projects (moveCard projectId toColId fromColId cardId j
                       (moveCard projectId fromColId toColId cardId i d)))
         = map (\<lambda>p. membership (board p)) (projects d)"
proof -
  have "membership (board (moveCard_project toColId fromColId cardId j
            (moveCard_project fromColId toColId cardId i p))) = membership (board p)"
    if "p \<in> set (projects d)" "proj_id p = projectId" for p
  proof -
    from assms that have cols: "\<forall>col \<in> set (columns (board p)).
        (col_id col = fromColId \<longrightarrow> cardId \<in> set (cardIds col)) \<and>
        (col_id col = toColId \<longrightarrow> cardId \<notin> set (cardIds col))"
      by blast
    show ?thesis
      unfolding membership_def board_moveCard_project map_map
      by (rule map_cong [OF refl]) (use cols in \<open>simp add: moveCard_column_there_and_back\<close>)
  qed
  then show ?thesis
    by (simp add: moveCard_def comp_def cong: map_cong)
qed

text \<open>
  C7 as stated fails when the card is in the list of the target column as well, which the
  program does not prevent (import accepts any object with a \<open>projects\<close> field, and
  \<open>moveCard\<close> inserts a card id into the target whether or not a column holds it). Here
  \<open>c1\<close> is a member of \<open>todo\<close> and also of \<open>done\<close>: the first move makes the list of
  \<open>done\<close> hold it twice, the second filters every occurrence out, and \<open>done\<close> has lost
  \<open>c1\<close>.
\<close>

theorem moveCard_there_and_back_counterexample:
  "(let d = \<lparr> meta = \<lparr> createdAt = Num_Finite 0, meta_name = ''w'' \<rparr>, users = [],
              projects = [ \<lparr> proj_id = ''p'', title = ''t'', description = [], proj_image = None,
                tags = [],
                board = \<lparr> columns =
                            [ \<lparr> col_id = ''todo'', col_title = ''To Do'', cardIds = [''c1''] \<rparr>,
                              \<lparr> col_id = ''done'', col_title = ''Done'', cardIds = [''c1''] \<rparr> ],
                          cards = [(''c1'', [(''id'', JString ''c1'')])] \<rparr> \<rparr> ] \<rparr>
    in map proj_id (projects d) = [''p'']
       \<and> member_of_column (board (projects d ! 0)) ''todo'' ''c1''
       \<and> map (\<lambda>x. (col_id x, cardIds x)) (columns (board (projects d ! 0)))
           = [(''todo'', [''c1'']), (''done'', [''c1''])]
       \<and> map (\<lambda>x. (col_id x, cardIds x))
             (columns (board (projects (moveCard ''p'' ''todo'' ''done'' ''c1'' 0 d) ! 0)))
           = [(''todo'', []), (''done'', [''c1'', ''c1''])]
       \<and> map (\<lambda>x. (col_id x, cardIds x))
             (columns (board (projects (moveCard ''p'' ''done'' ''todo'' ''c1'' 0
                                          (moveCard ''p'' ''todo'' ''done'' ''c1'' 0 d)) ! 0)))
           = [(''todo'', [''c1'']), (''done'', [])]
       \<and> map (\<lambda>p. membership (board p))
             (projects (moveCard ''p'' ''done'' ''todo'' ''c1'' 0
                         (moveCard ''p'' ''todo'' ''done'' ''c1'' 0 d)))
           \<noteq> map (\<lambda>p. membership (board p)) (projects d))"
  by (simp add: Let_def moveCard_def moveCard_project_def moveCard_column_def splice_insert_def
      membership_def member_of_column_def)

text \<open>The amended C7 on the seed data.\<close>

theorem moveCard_there_and_back_keeps_membership_witness:
  "map (\<lambda>p. membership (board p))
     (projects (moveCard ''proj_1'' ''done'' ''todo'' ''c1'' 0
                 (moveCard ''proj_1'' ''todo'' ''done'' ''c1'' 0 (sampleSeed (Num_Finite 0)))))
   = [[(''todo'', {''c1'', ''c2''}), (''inprogress'', {''c3''}), (''done'', {})]]"
proof -
  let ?d = "sampleSeed (Num_Finite 0)"
  have h: "\<forall>p \<in> set (projects ?d). proj_id p = ''proj_1'' \<longrightarrow>
             (\<forall>col \<in> set (columns (board p)).
                (col_id col = ''todo'' \<longrightarrow> ''c1'' \<in> set (cardIds col)) \<and>
                (col_id col = ''done'' \<longrightarrow> ''c1'' \<notin> set (cardIds col)))"
    by (simp add: sampleSeed_def)
  from moveCard_there_and_back_keeps_membership [OF h, of 0 0]
  show ?thesis by (simp add: sampleSeed_def membership_def)
qed

section \<open>Properties of the markdown renderer\<close>

subsection \<open>Escaping\<close>


lemma replace_from_Nil:
  "replace_from r t p [] =
     (case exec_at r p [] of Some (p', inp', caps) \<Rightarrow> expand t caps | None \<Rightarrow> [])"
  by (subst replace_from.simps) (simp split: option.splits)

lemma replace_from_Cons:
  "replace_from r t p (c # cs) =
     (case exec_at r p (c # cs) of
        Some (p', inp', caps) \<Rightarrow>
          expand t caps @
          (if length inp' < Suc (length cs) then replace_from r t p' inp'
           else c # replace_from r t (Some c) cs)
      | None \<Rightarrow> c # replace_from r t (Some c) cs)"
  by (subst replace_from.simps) (simp split: option.splits)










subsection \<open>Headings\<close>

lemma one_line_simps [simp]:
  "one_line []"
  "one_line (c # l) \<longleftrightarrow> \<not> line_terminator c \<and> one_line l"
  "one_line (l @ l') \<longleftrightarrow> one_line l \<and> one_line l'"
  by (auto simp: one_line_def)

lemma ms_Star_Dot_line:
  "one_line l \<Longrightarrow> line_end rest \<Longrightarrow>
   \<exists>others. ms (Star (Atom Dot)) (p, l @ rest, caps) =
            (if l = [] then p else Some (last l), rest, caps) # others"
proof (induction l arbitrary: p)
  case Nil
  then show ?case by (cases rest) (simp_all add: line_end_def)
next
  case (Cons c l)
  from Cons.prems have "one_line l" by simp
  from Cons.IH [OF this Cons.prems(2), of "Some c"]
  obtain others where "ms (Star (Atom Dot)) (Some c, l @ rest, caps) =
      (if l = [] then Some c else Some (last l), rest, caps) # others" by blast
  with Cons.prems show ?case by simp
qed

lemma exec_at_heading_match:
  assumes "at_line_start p" "h \<noteq> []" "one_line l" "line_end rest"
  shows "exec_at (heading_regex h) p (h @ l @ rest) = Some (Some (last (h @ l)), rest, [(1, l)])"
proof -
  define q where "q = (if l = [] then Some (last h) else Some (last l))"
  let ?line = "Seq (Star (Atom Dot)) Eol"
  from ms_Star_Dot_line [OF assms(3,4), of "Some (last h)" "[]"]
  obtain others where star: "ms (Star (Atom Dot)) (Some (last h), l @ rest, []) = (q, rest, []) # others"
    unfolding q_def by blast
  have eol: "ms Eol (q, rest, []) = [(q, rest, [])]"
    using assms(4) by (cases rest) (simp_all add: line_end_def)
  have seq: "ms ?line (Some (last h), l @ rest, []) = (q, rest, []) # concat (map (ms Eol) others)"
    by (simp only: ms.simps(5) star list.map concat.simps eol append_Cons append_Nil)
  have grp: "ms (Group 1 ?line) (Some (last h), l @ rest, []) =
      (q, rest, [(1, l)]) #
      map (\<lambda>(p', inp', caps'). (p', inp', (1, take (length (l @ rest) - length inp') (l @ rest)) # caps'))
          (concat (map (ms Eol) others))"
    by (simp only: ms.simps(9) seq) simp
  have lit: "ms (Lit h) (p, h @ l @ rest, []) = [(Some (last h), l @ rest, [])]"
    using assms(2) by simp
  have bol: "ms Bol (p, h @ l @ rest, []) = [(p, h @ l @ rest, [])]"
    using assms(1) by (cases p) (simp_all add: at_line_start_def)
  have "ms (heading_regex h) (p, h @ l @ rest, []) = ms (Group 1 ?line) (Some (last h), l @ rest, [])"
    unfolding heading_regex_def
    by (simp only: ms.simps(5) bol lit list.map concat.simps append_Nil2)
  with grp have "exec_at (heading_regex h) p (h @ l @ rest) = Some (q, rest, [(1, l)])"
    by (simp add: exec_at_def)
  moreover have "q = Some (last (h @ l))"
    using assms(2) by (simp add: q_def)
  ultimately show ?thesis by simp
qed

lemma exec_at_heading_not_at_start:
  "\<not> at_line_start p \<Longrightarrow> exec_at (heading_regex h) p inp = None"
  by (cases p) (simp_all add: at_line_start_def exec_at_def heading_regex_def)

lemma exec_at_heading_no_prefix:
  "\<not> prefix h inp \<Longrightarrow> exec_at (heading_regex h) p inp = None"
  by (cases p) (simp_all add: exec_at_def heading_regex_def)

lemma prefix_within_line:
  assumes "prefix h (l @ rest)" "one_line h" "line_end rest"
  shows "prefix h l"
proof -
  from assms(1) have "prefix h l \<or> (\<exists>us. h = l @ us \<and> prefix us rest)"
    by (simp add: prefix_append)
  then show ?thesis
  proof
    assume "prefix h l"
    then show ?thesis .
  next
    assume "\<exists>us. h = l @ us \<and> prefix us rest"
    then obtain us where us: "h = l @ us" "prefix us rest" by blast
    show ?thesis
    proof (cases us)
      case Nil
      with us(1) show ?thesis by simp
    next
      case (Cons u us')
      with us(2) obtain rest' where "rest = u # rest'" by (cases rest) auto
      with us(1) Cons assms(2,3) show ?thesis by (simp add: line_end_def)
    qed
  qed
qed

lemma replace_from_heading_rest:
  assumes "\<not> at_line_start q"
  shows "replace_from (heading_regex h) tmpl q rest =
           (case rest of [] \<Rightarrow> [] | t # rest' \<Rightarrow> t # replace_from (heading_regex h) tmpl (Some t) rest')"
  using assms
  by (cases rest) (simp_all add: replace_from_Nil replace_from_Cons exec_at_heading_not_at_start)

lemma replace_from_heading_inside:
  "\<not> at_line_start p \<Longrightarrow> one_line l \<Longrightarrow>
   replace_from (heading_regex h) tmpl p (l @ rest) =
     l @ replace_from (heading_regex h) tmpl (if l = [] then p else Some (last l)) rest"
proof (induction l arbitrary: p)
  case Nil
  then show ?case by simp
next
  case (Cons c l)
  from Cons.prems have c: "\<not> at_line_start (Some c)" and l: "one_line l"
    by (simp_all add: at_line_start_def)
  from Cons.IH [OF c l] Cons.prems(1) show ?case
    by (simp add: replace_from_Cons exec_at_heading_not_at_start)
qed

lemma not_at_line_start_last:
  "one_line l \<Longrightarrow> l \<noteq> [] \<Longrightarrow> \<not> at_line_start (Some (last l))"
  by (simp add: at_line_start_def one_line_def)

lemma replace_from_heading_line:
  assumes start: "at_line_start p" and h: "h \<noteq> []" "one_line h"
    and l: "one_line l" and rest: "line_end rest"
  shows "replace_from (heading_regex h) [Text opn, Ref 1, Text cls] p (l @ rest) =
           heading_of h opn cls l @
           (case rest of [] \<Rightarrow> []
            | t # rest' \<Rightarrow> t # replace_from (heading_regex h) [Text opn, Ref 1, Text cls] (Some t) rest')"
    (is "replace_from ?r ?t p _ = _")
proof (cases "prefix h l")
  case True
  then obtain l' where l': "l = h @ l'" by (auto simp: prefix_def)
  with l have ol': "one_line l'" by simp
  from h(1) obtain c cs where hc: "h = c # cs" by (cases h) auto
  have ex: "exec_at ?r p (h @ l' @ rest) = Some (Some (last (h @ l')), rest, [(1, l')])"
    by (rule exec_at_heading_match [OF start h(1) ol' rest])
  have notstart: "\<not> at_line_start (Some (last (h @ l')))"
    using not_at_line_start_last [of "h @ l'"] h ol' by simp
  have "replace_from ?r ?t p (h @ l' @ rest) =
      opn @ l' @ cls @ replace_from ?r ?t (Some (last (h @ l'))) rest"
    using ex h(1) by (subst replace_from.simps) simp
  also have "replace_from ?r ?t (Some (last (h @ l'))) rest =
      (case rest of [] \<Rightarrow> [] | t # rest' \<Rightarrow> t # replace_from ?r ?t (Some t) rest')"
    by (rule replace_from_heading_rest [OF notstart])
  finally show ?thesis by (simp add: l' heading_of_def)
next
  case False
  with prefix_within_line [OF _ h(2) rest] have np: "\<not> prefix h (l @ rest)" by blast
  show ?thesis
  proof (cases l)
    case Nil
    with np h(1) show ?thesis
      by (cases rest)
         (simp_all add: replace_from_Nil replace_from_Cons exec_at_heading_no_prefix heading_of_def)
  next
    case (Cons c l')
    with l have c: "\<not> at_line_start (Some c)" and ol': "one_line l'"
      by (simp_all add: at_line_start_def)
    have q: "\<not> at_line_start (if l' = [] then Some c else Some (last l'))"
      using c not_at_line_start_last [OF ol'] by simp
    have "replace_from ?r ?t p (l @ rest) = c # replace_from ?r ?t (Some c) (l' @ rest)"
      using np by (simp add: Cons replace_from_Cons exec_at_heading_no_prefix)
    also have "replace_from ?r ?t (Some c) (l' @ rest) =
        l' @ replace_from ?r ?t (if l' = [] then Some c else Some (last l')) rest"
      by (rule replace_from_heading_inside [OF c ol'])
    also have "replace_from ?r ?t (if l' = [] then Some c else Some (last l')) rest =
        (case rest of [] \<Rightarrow> [] | t # rest' \<Rightarrow> t # replace_from ?r ?t (Some t) rest')"
      by (rule replace_from_heading_rest [OF q])
    finally show ?thesis using False by (simp add: Cons heading_of_def)
  qed
qed

lemma replace_from_heading_lines:
  assumes h: "h \<noteq> []" "one_line h"
  shows "at_line_start p \<Longrightarrow> \<forall>(l, t) \<in> set ls. one_line l \<and> line_terminator t \<Longrightarrow> one_line final \<Longrightarrow>
    replace_from (heading_regex h) [Text opn, Ref 1, Text cls] p (unlines_with ls final) =
      unlines_with (map (\<lambda>(l, t). (heading_of h opn cls l, t)) ls) (heading_of h opn cls final)"
proof (induction ls arbitrary: p)
  case Nil
  from replace_from_heading_line [OF Nil(1) h Nil(3), of "[]" opn cls]
  show ?case by (simp add: unlines_with_def line_end_def)
next
  case (Cons x ls)
  obtain l t where x: "x = (l, t)" by (cases x)
  from Cons.prems x have l: "one_line l" and t: "line_terminator t"
    and rest: "\<forall>(l, t) \<in> set ls. one_line l \<and> line_terminator t" by auto
  from t have start: "at_line_start (Some t)" by (simp add: at_line_start_def)
  from t have le: "line_end (t # unlines_with ls final)" by (simp add: line_end_def)
  from replace_from_heading_line [OF Cons.prems(1) h l le, of opn cls]
    Cons.IH [OF start rest Cons.prems(3)]
  show ?case by (simp add: x unlines_with_def)
qed

lemma one_line_heading_of:
  "one_line opn \<Longrightarrow> one_line cls \<Longrightarrow> one_line l \<Longrightarrow> one_line (heading_of h opn cls l)"
  by (auto simp: heading_of_def one_line_def dest: in_set_dropD)

lemma heading_of_thrice:
  \<open>heading_of ''# '' ''<h1 class="text-2xl font-extrabold">'' ''</h1>''
     (heading_of ''## '' ''<h2 class="text-xl font-bold">'' ''</h2>''
       (heading_of ''### '' ''<h3 class="text-lg font-semibold">'' ''</h3>'' l)) = heading_line l\<close>
  by (simp add: heading_of_def heading_line_def eval_nat_numeral)

lemma headings_unlines_with:
  assumes "\<forall>(l, t) \<in> set ls. one_line l \<and> line_terminator t" and "one_line final"
  shows "headings (unlines_with ls final) =
           unlines_with (map (\<lambda>(l, t). (heading_line l, t)) ls) (heading_line final)"
proof -
  let ?f3 = \<open>heading_of ''### '' ''<h3 class="text-lg font-semibold">'' ''</h3>''\<close>
  let ?f2 = \<open>heading_of ''## '' ''<h2 class="text-xl font-bold">'' ''</h2>''\<close>
  let ?f1 = \<open>heading_of ''# '' ''<h1 class="text-2xl font-extrabold">'' ''</h1>''\<close>
  have start: "at_line_start None" by (simp add: at_line_start_def)
  have ol: "one_line (f l)" if "one_line l" "f = ?f3 \<or> f = ?f2 \<or> f = ?f1" for f l
    using that by (auto intro!: one_line_heading_of simp: line_terminator_def)
  let ?ls3 = "map (\<lambda>(l, t). (?f3 l, t)) ls"
  let ?ls2 = "map (\<lambda>(l, t). (?f2 l, t)) ?ls3"
  have a3: "\<forall>(l, t) \<in> set ?ls3. one_line l \<and> line_terminator t"
    using assms(1) ol by fastforce
  have a2: "\<forall>(l, t) \<in> set ?ls2. one_line l \<and> line_terminator t"
    using a3 ol by fastforce
  have s3: \<open>replace (heading_regex ''### '') [Text ''<h3 class="text-lg font-semibold">'', Ref 1, Text ''</h3>'']
              (unlines_with ls final) = unlines_with ?ls3 (?f3 final)\<close>
    unfolding replace_def
    by (rule replace_from_heading_lines [OF _ _ start assms]) (simp_all add: line_terminator_def)
  have s2: \<open>replace (heading_regex ''## '') [Text ''<h2 class="text-xl font-bold">'', Ref 1, Text ''</h2>'']
              (unlines_with ?ls3 (?f3 final)) = unlines_with ?ls2 (?f2 (?f3 final))\<close>
    unfolding replace_def
    by (rule replace_from_heading_lines [OF _ _ start a3 ol [OF assms(2)]])
       (simp_all add: line_terminator_def)
  have s1: \<open>replace (heading_regex ''# '') [Text ''<h1 class="text-2xl font-extrabold">'', Ref 1, Text ''</h1>'']
              (unlines_with ?ls2 (?f2 (?f3 final))) =
            unlines_with (map (\<lambda>(l, t). (?f1 l, t)) ?ls2) (?f1 (?f2 (?f3 final)))\<close>
    unfolding replace_def
    by (rule replace_from_heading_lines [OF _ _ start a2 ol [OF ol [OF assms(2)]]])
       (simp_all add: line_terminator_def)
  have m: "map (\<lambda>(l, t). (?f1 l, t)) ?ls2 = map (\<lambda>(l, t). (heading_line l, t)) ls"
    by (simp add: heading_of_thrice case_prod_unfold)
  have "headings (unlines_with ls final) =
      unlines_with (map (\<lambda>(l, t). (?f1 l, t)) ?ls2) (?f1 (?f2 (?f3 final)))"
    by (simp only: headings_def s3 s2 s1)
  then show ?thesis
    by (simp only: m heading_of_thrice)
qed


lemma split_lines_lines:
  "split_lines s = (ls, final) \<Longrightarrow>
   (\<forall>(l, t) \<in> set ls. one_line l \<and> line_terminator t) \<and> one_line final
   \<and> unlines_with ls final = s"
proof (induction s arbitrary: ls final)
  case Nil
  then show ?case by (simp add: unlines_with_def)
next
  case (Cons c cs)
  obtain ls' final' where s: "split_lines cs = (ls', final')" by (cases "split_lines cs")
  note ih = Cons.IH [OF s]
  show ?case
  proof (cases "line_terminator c")
    case True
    with Cons.prems s ih show ?thesis by (auto simp: unlines_with_def)
  next
    case False
    with Cons.prems s ih show ?thesis
      by (cases ls') (auto simp: unlines_with_def)
  qed
qed

lemma renderMarkdown_two_headings:
  \<open>renderMarkdown ''# H1\<newline>## H2'' =
     ''<div class="prose max-w-none"><p><h1 class="text-2xl font-extrabold">H1</h1>\<newline><h2 class="text-xl font-bold">H2</h2></p></div>''\<close>
  by code_simp

text \<open>
  C5, as amended. The heading replacements turn a line into a heading exactly when the
  line begins, at its first character and with no whitespace before, with \<open>###\<close>, \<open>##\<close>
  or \<open>#\<close> and one space: the rest of the line is wrapped into an \<open>h3\<close>, \<open>h2\<close> or \<open>h1\<close>
  element, the longer prefix first, and every other line is left as it is. This holds for
  every text, line by line. In particular the two lines \<open># H1\<close> and \<open>## H2\<close> are rendered
  as an \<open>h1\<close> element followed by an \<open>h2\<close> element.
\<close>

theorem headings_line_by_line:
  \<open>headings text = map_lines heading_line text
   \<and> renderMarkdown ''# H1\<newline>## H2'' =
       ''<div class="prose max-w-none"><p><h1 class="text-2xl font-extrabold">H1</h1>\<newline><h2 class="text-xl font-bold">H2</h2></p></div>''\<close>
proof -
  obtain ls final where s: "split_lines text = (ls, final)" by (cases "split_lines text")
  from split_lines_lines [OF s] headings_unlines_with [of ls final]
  have "headings text = unlines_with (map (\<lambda>(l, t). (heading_line l, t)) ls) (heading_line final)"
    by auto
  with s show ?thesis
    by (simp add: map_lines_def renderMarkdown_two_headings)
qed

text \<open>
  C5 as stated fails for a line with whitespace before the hash: the expressions are
  anchored at the start of the line, and \<open> # H1\<close> is rendered as plain text.
\<close>

theorem heading_after_whitespace_counterexample:
  \<open>renderMarkdown '' # H1'' = ''<div class="prose max-w-none"><p> # H1</p></div>''
   \<and> \<not> sublist ''<h1'' (renderMarkdown '' # H1'')\<close>
proof -
  have r: \<open>renderMarkdown '' # H1'' = ''<div class="prose max-w-none"><p> # H1</p></div>''\<close>
    by code_simp
  have \<open>\<not> sublist ''<h1'' ''<div class="prose max-w-none"><p> # H1</p></div>''\<close>
    by code_simp
  with r show ?thesis by (simp del: sublist_code)
qed

text \<open>The amended C5 on a text of three lines, the second with a space before the hashes.\<close>

theorem headings_line_by_line_witness:
  \<open>headings ''### a\<newline> ## b\<newline># c'' =
     ''<h3 class="text-lg font-semibold">a</h3>\<newline> ## b\<newline><h1 class="text-2xl font-extrabold">c</h1>''\<close>
  using headings_line_by_line [of \<open>''### a\<newline> ## b\<newline># c''\<close>]
  by (simp add: map_lines_def unlines_with_def heading_line_def line_terminator_def)

section \<open>Properties of export and import\<close>

text \<open>
  C8. Whatever the text of the file and whatever the parser: import replaces the state only
  if the text parses to a value that has a \<open>projects\<close> field; if the text does not parse,
  or parses to a value without a \<open>projects\<close> field, import raises an alert (\<open>Could not
  parse JSON\<close>, \<open>Invalid file\<close>) and the state is the one before.
\<close>

theorem importJSON_needs_projects_field:
  "(snd (importJSON parse text d) = None \<longrightarrow>
      (\<exists>obj. parse text = Some obj \<and> has_projects_field obj
             \<and> fst (importJSON parse text d) = obj))
   \<and> (parse text = None \<longrightarrow>
        importJSON parse text d = (d, Some ''Could not parse JSON''))
   \<and> (\<forall>obj. parse text = Some obj \<and> \<not> has_projects_field obj \<longrightarrow>
        importJSON parse text d = (d, Some ''Invalid file''))"
proof -
  have field: "has_projects_field obj" if "get_projects obj = Some v" for obj v
    using that
    by (cases obj) (auto simp: get_projects_def has_projects_field_def dest: map_of_SomeD intro: rev_image_eqI)
  have nofield: "get_projects obj = None" if "\<not> has_projects_field obj" for obj
    using that field by (cases "get_projects obj") auto
  show ?thesis
    by (auto simp: importJSON_def nofield split: option.splits if_splits dest: field)
qed

subsection \<open>The JSON model gives back what it printed\<close>

lemma of_char_digit_char: "n < 10 \<Longrightarrow> (of_char (digit_char n) :: nat) = 48 + n"
  by (simp add: digit_char_def)

lemma is_digit_digit_char [simp]: "n < 10 \<Longrightarrow> is_digit (digit_char n)"
  by (simp add: is_digit_def of_char_digit_char)

lemma digit_value_digit_char [simp]: "n < 10 \<Longrightarrow> digit_value (digit_char n) = n"
  by (simp add: digit_value_def of_char_digit_char)

lemma digits_nonempty [simp]: "digits n \<noteq> []"
  by (subst digits.simps) simp

lemma digits_are_digits: "c \<in> set (digits n) \<Longrightarrow> is_digit c"
proof (induction n arbitrary: c rule: digits.induct)
  case (1 n)
  show ?case
  proof (cases "n < 10")
    case True
    with "1.prems" show ?thesis by (subst (asm) digits.simps) simp
  next
    case False
    with "1.prems" have "c \<in> set (digits (n div 10)) \<or> c = digit_char (n mod 10)"
      by (subst (asm) digits.simps) auto
    with "1.IH" [OF False] show ?thesis by auto
  qed
qed

lemma digits_value_snoc: "digits_value (ds @ [d]) = 10 * digits_value ds + digit_value d"
  by (simp add: digits_value_def)

lemma digits_value_digits [simp]: "digits_value (digits n) = n"
proof (induction n rule: digits.induct)
  case (1 n)
  show ?case
  proof (cases "n < 10")
    case True
    then show ?thesis by (subst digits.simps) (simp add: digits_value_def)
  next
    case False
    with "1.IH" show ?thesis
      by (subst digits.simps) (simp add: digits_value_snoc)
  qed
qed

lemma hd_digits: "0 < n \<Longrightarrow> hd (digits n) \<noteq> CHR ''0''"
proof (induction n rule: digits.induct)
  case (1 n)
  show ?case
  proof (cases "n < 10")
    case True
    have "digit_char n \<noteq> CHR ''0''"
    proof
      assume "digit_char n = CHR ''0''"
      then have "(of_char (digit_char n) :: nat) = of_char CHR ''0''" by simp
      with True "1.prems" show False by (simp add: of_char_digit_char)
    qed
    with True show ?thesis by (subst digits.simps) simp
  next
    case False
    then have "0 < n div 10" by simp
    from "1.IH" [OF False this] False show ?thesis
      by (subst digits.simps) simp
  qed
qed

lemma length_digits_gt_1: "1 < length (digits n) \<Longrightarrow> 0 < n"
  by (cases "n = 0") (simp_all add: digits.simps)

lemma takeWhile_all: "\<forall>x \<in> set xs. P x \<Longrightarrow> (ys = [] \<or> \<not> P (hd ys)) \<Longrightarrow> takeWhile P (xs @ ys) = xs"
  by (induction xs) (auto simp: takeWhile_eq_Nil_iff neq_Nil_conv)

lemma dropWhile_all: "\<forall>x \<in> set xs. P x \<Longrightarrow> (ys = [] \<or> \<not> P (hd ys)) \<Longrightarrow> dropWhile P (xs @ ys) = ys"
  by (induction xs) (auto simp: dropWhile_eq_self_iff neq_Nil_conv)

lemma delimited_not_digit: "delimited rest \<Longrightarrow> rest = [] \<or> \<not> is_digit (hd rest)"
  by (cases rest) (auto simp: delimited_def is_digit_def)

lemma fraction_part_delimited: "delimited rest \<Longrightarrow> fraction_part rest = Some ([], rest)"
  by (cases rest) (auto simp: fraction_part_def delimited_def)

lemma exponent_part_delimited: "delimited rest \<Longrightarrow> exponent_part rest = Some (0, rest)"
  by (cases rest) (auto simp: exponent_part_def delimited_def)

lemma parse_number_digits:
  assumes "delimited rest"
  shows "parse_number (digits n @ rest) = Some (of_nat n, rest)"
proof -
  have nd: "rest = [] \<or> \<not> is_digit (hd rest)"
    using assms by (rule delimited_not_digit)
  have all: "\<forall>x \<in> set (digits n). is_digit x"
    by (auto intro: digits_are_digits)
  have tk: "takeWhile is_digit (digits n @ rest) = digits n"
    and dr: "dropWhile is_digit (digits n @ rest) = rest"
    using all nd by (rule takeWhile_all, rule dropWhile_all)
  obtain c cs where d: "digits n = c # cs" by (cases "digits n") auto
  have c: "is_digit c" using all d by simp
  then have nm: "c \<noteq> CHR ''-''" by (auto simp: is_digit_def)
  have lead: "\<not> (1 < length (digits n) \<and> hd (digits n) = CHR ''0'')"
    using length_digits_gt_1 [of n] hd_digits [of n] by blast
  have s: "(case digits n @ rest of [] \<Rightarrow> (False, digits n @ rest)
            | c # cs \<Rightarrow> if c = CHR ''-'' then (True, cs) else (False, digits n @ rest))
           = (False, digits n @ rest)"
    using nm by (simp add: d)
  show ?thesis
    unfolding parse_number_def s
    using lead
    by (simp add: Let_def tk dr fraction_part_delimited [OF assms] exponent_part_delimited [OF assms])
qed

lemma parse_number_integer:
  assumes "delimited rest"
  shows "parse_number (integer_to_string i @ rest) = Some (of_int i, rest)"
proof (cases "i < 0")
  case False
  then have "integer_to_string i = digits (nat i)" by (simp add: integer_to_string_def)
  with parse_number_digits [OF assms, of "nat i"] False show ?thesis by simp
next
  case True
  let ?n = "nat (- i)"
  have nd: "rest = [] \<or> \<not> is_digit (hd rest)"
    using assms by (rule delimited_not_digit)
  have all: "\<forall>x \<in> set (digits ?n). is_digit x"
    by (auto intro: digits_are_digits)
  have tk: "takeWhile is_digit (digits ?n @ rest) = digits ?n"
    and dr: "dropWhile is_digit (digits ?n @ rest) = rest"
    using all nd by (rule takeWhile_all, rule dropWhile_all)
  have lead: "\<not> (1 < length (digits ?n) \<and> hd (digits ?n) = CHR ''0'')"
    using length_digits_gt_1 [of ?n] hd_digits [of ?n] by blast
  have "parse_number (CHR ''-'' # digits ?n @ rest) = Some (- of_nat ?n, rest)"
    unfolding parse_number_def
    using lead
    by (simp add: Let_def tk dr fraction_part_delimited [OF assms] exponent_part_delimited [OF assms])
  with True show ?thesis by (simp add: integer_to_string_def)
qed


subsection \<open>Strings\<close>

lemma hex_value_hex_char: "k < 16 \<Longrightarrow> hex_value (hex_char k) = Some k"
proof (cases "k < 10")
  case True
  then show ?thesis by (simp add: hex_char_def hex_value_def)
next
  case False
  assume "k < 16"
  with False have "(of_char (char_of (97 + (k - 10) :: nat)) :: nat) = 97 + (k - 10)"
    by simp
  with False \<open>k < 16\<close> show ?thesis
    by (simp add: hex_char_def hex_value_def is_digit_def)
qed

lemma parse_chars_quote_char:
  "parse_chars (quote_char c @ s) =
     (case parse_chars s of None \<Rightarrow> None | Some (str, r) \<Rightarrow> Some (c # str, r))"
proof -
  consider (short) "c \<in> {CHR 0x22, CHR 0x5C, CHR 0x08, CHR 0x0C, CHR 0x0A, CHR 0x0D, CHR 0x09}"
    | (control) "c \<notin> {CHR 0x22, CHR 0x5C, CHR 0x08, CHR 0x0C, CHR 0x0A, CHR 0x0D, CHR 0x09}"
        "(of_char c :: nat) < 0x20"
    | (plain) "c \<notin> {CHR 0x22, CHR 0x5C, CHR 0x08, CHR 0x0C, CHR 0x0A, CHR 0x0D, CHR 0x09}"
        "\<not> (of_char c :: nat) < 0x20"
    by blast
  then show ?thesis
  proof cases
    case short
    then show ?thesis
      by (auto simp: quote_char_def unescape_def split: option.splits)
  next
    case control
    let ?n = "of_char c :: nat"
    from control(2) have hi: "?n div 16 < 16" and lo: "?n mod 16 < 16" by simp_all
    have same: "char_of (16 * (?n div 16) + ?n mod 16) = c" by simp
    have zero: "hex_value CHR ''0'' = Some 0"
      by (simp add: hex_value_def is_digit_def digit_value_def)
    from control show ?thesis
      by (simp add: quote_char_def zero hex_value_hex_char [OF hi] hex_value_hex_char [OF lo] same
          split: option.splits)
  next
    case plain
    then show ?thesis
      by (simp add: quote_char_def split: option.splits)
  qed
qed

lemma parse_chars_quoted:
  "parse_chars (concat (map quote_char s) @ CHR 0x22 # rest) = Some (s, rest)"
  by (induction s) (simp_all add: parse_chars_quote_char)

subsection \<open>White space and the first character of a value\<close>

lemma skip_ws_append: "\<forall>c \<in> set pre. is_ws c \<Longrightarrow> skip_ws (pre @ s) = skip_ws s"
  by (induction pre) (simp_all add: skip_ws_def)

lemma skip_ws_Cons: "\<not> is_ws c \<Longrightarrow> skip_ws (c # s) = c # s"
  by (simp add: skip_ws_def)

lemma ws_newline_indent: "\<forall>c \<in> set (newline_indent n). is_ws c"
  by (simp add: newline_indent_def is_ws_def)

lemma skip_ws_newline_indent [simp]: "skip_ws (newline_indent n @ s) = skip_ws s"
  by (rule skip_ws_append [OF ws_newline_indent])

lemma value_start_simps:
  "value_start c \<Longrightarrow> \<not> is_ws c"
  "value_start c \<Longrightarrow> c \<noteq> CHR '']''"
  "value_start c \<Longrightarrow> c \<noteq> CHR ''}''"
  "value_start c \<Longrightarrow> c \<noteq> CHR '',''"
  by (auto simp: value_start_def is_ws_def is_digit_def)

lemma integer_to_string_start:
  "\<exists>c cs. integer_to_string i = c # cs \<and> (c = CHR ''-'' \<or> is_digit c)"
proof (cases "i < 0")
  case True
  then show ?thesis by (simp add: integer_to_string_def)
next
  case False
  obtain c cs where d: "digits (nat i) = c # cs" by (cases "digits (nat i)") auto
  then have "c \<in> set (digits (nat i))" by simp
  then have "is_digit c" by (rule digits_are_digits)
  with False d show ?thesis by (simp add: integer_to_string_def)
qed

lemma serialize_start:
  assumes "json_safe v"
  shows "\<exists>c cs. serialize nt n v = c # cs \<and> value_start c"
proof (cases v)
  case (JNumber x)
  with assms obtain r where x: "x = Num_Finite r" and r: "safe_integer r"
    by (cases x) auto
  from integer_to_string_start [of "\<lfloor>r\<rfloor>"] JNumber x r show ?thesis
    by (auto simp: number_to_string_def value_start_def)
next
  case (JArray xs)
  then show ?thesis by (cases xs) (simp_all add: value_start_def)
next
  case (JObject ps)
  then show ?thesis
    by (cases ps rule: list.exhaust [case_product prod.exhaust [where y = "hd ps"]])
       (auto simp: value_start_def)
qed (simp_all add: value_start_def quote_def)


subsection \<open>Parsing the text of a value\<close>

lemma delimited_simps [simp]:
  "delimited []"
  "delimited (CHR '','' # s)"
  "delimited (newline_indent k @ s)"
  by (simp_all add: delimited_def newline_indent_def)

lemma delimited_serialize_elements [simp]:
  "delimited (serialize_elements nt n xs @ newline_indent k @ s)"
  by (cases xs) simp_all

lemma delimited_serialize_members [simp]:
  "delimited (serialize_members nt n ps @ newline_indent k @ s)"
  by (cases ps rule: list.exhaust [case_product prod.exhaust [where y = "hd ps"]]) auto

lemma not_ws_simps [simp]:
  "\<not> is_ws CHR '',''" "\<not> is_ws CHR '']''" "\<not> is_ws CHR ''}''" "\<not> is_ws CHR '':''"
  "\<not> is_ws CHR 0x22" "is_ws CHR '' ''"
  by (simp_all add: is_ws_def)

lemma parse_value_atom:
  assumes ws: "\<forall>c \<in> set pre. is_ws c"
  shows "parse_value td (Suc f) (pre @ ''null'' @ rest) = Some (JNull, rest)"
    and "parse_value td (Suc f) (pre @ ''true'' @ rest) = Some (JBool True, rest)"
    and "parse_value td (Suc f) (pre @ ''false'' @ rest) = Some (JBool False, rest)"
    and "parse_value td (Suc f) (pre @ quote s @ rest) = Some (JString s, rest)"
    and "parse_value td (Suc f) (pre @ ''[]'' @ rest) = Some (JArray [], rest)"
    and "parse_value td (Suc f) (pre @ ''{}'' @ rest) = Some (JObject [], rest)"
  by (simp_all add: skip_ws_append [OF ws] skip_ws_Cons is_ws_def quote_def parse_chars_quoted)

lemma parse_value_number:
  assumes ws: "\<forall>c \<in> set pre. is_ws c" and "delimited rest" and "safe_integer (of_int i)"
  shows "parse_value td (Suc f) (pre @ integer_to_string i @ rest)
           = Some (JNumber (Num_Finite (of_int i)), rest)"
proof -
  from integer_to_string_start [of i] obtain c cs
    where s: "integer_to_string i = c # cs" and c: "c = CHR ''-'' \<or> is_digit c" by blast
  from c have nws: "\<not> is_ws c" and other: "c \<noteq> CHR 0x22" "c \<noteq> CHR ''[''" "c \<noteq> CHR ''{''"
    "c \<noteq> CHR ''n''" "c \<noteq> CHR ''t''" "c \<noteq> CHR ''f''"
    by (auto simp: is_ws_def is_digit_def)
  have sk: "skip_ws (pre @ integer_to_string i @ rest) = c # cs @ rest"
    by (simp add: skip_ws_append [OF ws] s skip_ws_Cons [OF nws])
  have "parse_number (c # cs @ rest) = Some (of_int i, rest)"
    using parse_number_integer [OF assms(2), of i] by (simp add: s)
  with other assms(3) show ?thesis
    by (simp add: sk number_value_def)
qed

lemma parse_serialize:
  "cost v \<le> fuel \<Longrightarrow> json_safe v \<Longrightarrow> \<forall>c \<in> set pre. is_ws c \<Longrightarrow> delimited rest \<Longrightarrow>
     parse_value td fuel (pre @ serialize nt n v @ rest) = Some (v, rest)"
  and "(\<And>fuel' rest'. cost x \<le> fuel' \<Longrightarrow> delimited rest' \<Longrightarrow>
          parse_value td fuel' (pre @ serialize nt n x @ rest') = Some (x, rest')) \<Longrightarrow>
       Suc (cost x + cost_elements xs) \<le> fuel \<Longrightarrow> json_safe_elements xs \<Longrightarrow>
     parse_elements td fuel
       (pre @ serialize nt n x @ serialize_elements nt n xs @ newline_indent j @ CHR '']'' # rest)
       = Some (x # xs, rest)"
  and "(\<And>fuel' rest'. cost y \<le> fuel' \<Longrightarrow> delimited rest' \<Longrightarrow>
          parse_value td fuel' ('' '' @ serialize nt n y @ rest') = Some (y, rest')) \<Longrightarrow>
       Suc (cost y + cost_members ps) \<le> fuel \<Longrightarrow> json_safe_members ps \<Longrightarrow>
       \<forall>c \<in> set pre. is_ws c \<Longrightarrow>
     parse_members td fuel
       (pre @ quote key @ '': '' @ serialize nt n y @ serialize_members nt n ps @ newline_indent j @ CHR ''}'' # rest)
       = Some ((key, y) # ps, rest)"
proof (induction nt n v and nt n xs and nt n ps
    arbitrary: fuel pre rest and fuel pre rest x j and fuel pre rest y key j
    rule: serialize_serialize_elements_serialize_members.induct)
  case (1 nt n)
  then obtain f where "fuel = Suc f" by (cases fuel) auto
  with 1 show ?case using parse_value_atom(1) [of pre td f rest] by simp
next
  case (2 nt n b)
  then obtain f where "fuel = Suc f" by (cases fuel) auto
  with 2 show ?case
    using parse_value_atom(2) [of pre td f rest] parse_value_atom(3) [of pre td f rest] by simp
next
  case (3 nt n x)
  then obtain f where f: "fuel = Suc f" by (cases fuel) auto
  from 3(2) obtain r where x: "x = Num_Finite r" and safe: "safe_integer r"
    by (cases x) auto
  from safe have r: "r = of_int \<lfloor>r\<rfloor>" by (simp add: safe_integer_def)
  with safe have "safe_integer (of_int \<lfloor>r\<rfloor>)" by simp
  from parse_value_number [where td = td and f = f, OF 3(3,4) this] r safe
  show ?case by (simp add: f x number_to_string_def)
next
  case (4 nt n s)
  then obtain f where "fuel = Suc f" by (cases fuel) auto
  with 4 show ?case using parse_value_atom(4) [of pre td f s rest] by simp
next
  case (5 nt n)
  then obtain f where "fuel = Suc f" by (cases fuel) auto
  with 5 show ?case using parse_value_atom(5) [of pre td f rest] by simp
next
  case (6 nt n x xs)
  from 6(3) obtain f where f: "fuel = Suc f" and fl: "Suc (cost x + cost_elements xs) \<le> f"
    by (cases fuel) auto
  from 6(4) have sx: "json_safe x" and sxs: "json_safe_elements xs" by simp_all
  from serialize_start [OF sx, of nt "Suc n"] obtain c cs
    where s: "serialize nt (Suc n) x = c # cs" and c: "value_start c" by blast
  let ?tl = "serialize_elements nt (Suc n) xs @ newline_indent n @ CHR '']'' # rest"
  have el: "parse_elements td f (newline_indent (Suc n) @ serialize nt (Suc n) x @ ?tl) = Some (x # xs, rest)"
    by (rule "6.IH"(2) [OF "6.IH"(1) fl sxs]) (use sx ws_newline_indent in auto)
  have sk: "skip_ws (newline_indent (Suc n) @ serialize nt (Suc n) x @ ?tl) = c # cs @ ?tl"
    using c by (simp add: s skip_ws_Cons value_start_simps)
  from c have nb: "c \<noteq> CHR '']''" by (rule value_start_simps)
  show ?case
    using el sk nb
    by (simp add: f skip_ws_append [OF 6(5)] skip_ws_Cons is_ws_def)
next
  case (7 nt n)
  then obtain f where "fuel = Suc f" by (cases fuel) auto
  with 7 show ?case using parse_value_atom(6) [of pre td f rest] by simp
next
  case (8 nt n k v ps)
  from 8(3) obtain f where f: "fuel = Suc f" and fl: "Suc (cost v + cost_members ps) \<le> f"
    by (cases fuel) auto
  from 8(4) have sv: "json_safe v" and sps: "json_safe_members ps"
    and dist: "distinct (map fst ((k, v) # ps))" by simp_all
  let ?tl = "serialize_members nt (Suc n) ps @ newline_indent n @ CHR ''}'' # rest"
  have sp: "\<forall>c \<in> set '' ''. is_ws c" by simp
  have mem: "parse_members td f
      (newline_indent (Suc n) @ quote k @ '': '' @ serialize nt (Suc n) v @ ?tl)
      = Some ((k, v) # ps, rest)"
    by (rule "8.IH"(2) [OF "8.IH"(1) fl sps ws_newline_indent]) (use sv sp in auto)
  have sk: "skip_ws (newline_indent (Suc n) @ quote k @ '': '' @ serialize nt (Suc n) v @ ?tl)
      = quote k @ '': '' @ serialize nt (Suc n) v @ ?tl"
    by (simp add: quote_def skip_ws_Cons)
  have "spread [] ((k, v) # ps) = (k, v) # ps"
    by (rule spread_empty [OF dist])
  with mem sk show ?case
    by (simp add: f skip_ws_append [OF 8(5)] skip_ws_Cons is_ws_def quote_def)
next
  case (9 nt n)
  from 9(2) obtain f where f: "fuel = Suc f" and fl: "cost x \<le> f" by (cases fuel) auto
  have "parse_value td f (pre @ serialize nt n x @ newline_indent j @ CHR '']'' # rest)
      = Some (x, newline_indent j @ CHR '']'' # rest)"
    by (rule 9(1) [OF fl]) simp
  then show ?case by (simp add: f skip_ws_Cons)
next
  case (10 nt n z zs)
  from 10(4) obtain f where f: "fuel = Suc f"
    and fx: "cost x \<le> f" and fl: "Suc (cost z + cost_elements zs) \<le> f"
    by (cases fuel) auto
  from 10(5) have sz: "json_safe z" and szs: "json_safe_elements zs" by simp_all
  let ?tl = "serialize_elements nt n zs @ newline_indent j @ CHR '']'' # rest"
  have first: "parse_value td f (pre @ serialize nt n x @ CHR '','' # newline_indent n @ serialize nt n z @ ?tl)
      = Some (x, CHR '','' # newline_indent n @ serialize nt n z @ ?tl)"
    by (rule 10(3) [OF fx]) simp
  have others: "parse_elements td f (newline_indent n @ serialize nt n z @ ?tl) = Some (z # zs, rest)"
    by (rule "10.IH"(2) [OF "10.IH"(1) fl szs]) (use sz ws_newline_indent in auto)
  from first others show ?case by (simp add: f skip_ws_Cons)
next
  case (11 nt n)
  from 11(2) obtain f where f: "fuel = Suc f" and fl: "cost y \<le> f" by (cases fuel) auto
  have val: "parse_value td f ('' '' @ serialize nt n y @ newline_indent j @ CHR ''}'' # rest)
      = Some (y, newline_indent j @ CHR ''}'' # rest)"
    by (rule 11(1) [OF fl]) simp
  have key: "parse_chars (concat (map quote_char key) @ CHR 0x22 #
        '': '' @ serialize nt n y @ newline_indent j @ CHR ''}'' # rest)
      = Some (key, '': '' @ serialize nt n y @ newline_indent j @ CHR ''}'' # rest)"
    by (rule parse_chars_quoted)
  from val key show ?case
    by (simp add: f skip_ws_append [OF 11(4)] skip_ws_Cons quote_def)
next
  case (12 nt n k v ps)
  from 12(4) obtain f where f: "fuel = Suc f"
    and fy: "cost y \<le> f" and fl: "Suc (cost v + cost_members ps) \<le> f"
    by (cases fuel) auto
  from 12(5) have sv: "json_safe v" and sps: "json_safe_members ps" by simp_all
  let ?tl = "serialize_members nt n ps @ newline_indent j @ CHR ''}'' # rest"
  let ?next = "CHR '','' # newline_indent n @ quote k @ '': '' @ serialize nt n v @ ?tl"
  have sp: "\<forall>c \<in> set '' ''. is_ws c" by simp
  have val: "parse_value td f ('' '' @ serialize nt n y @ ?next) = Some (y, ?next)"
    by (rule 12(3) [OF fy]) simp
  have key: "parse_chars (concat (map quote_char key) @ CHR 0x22 # '': '' @ serialize nt n y @ ?next)
      = Some (key, '': '' @ serialize nt n y @ ?next)"
    by (rule parse_chars_quoted)
  have others: "parse_members td f (newline_indent n @ quote k @ '': '' @ serialize nt n v @ ?tl)
      = Some ((k, v) # ps, rest)"
    by (rule "12.IH"(2) [OF "12.IH"(1) fl sps ws_newline_indent]) (use sv sp in auto)
  from val key others show ?case
    by (simp add: f skip_ws_append [OF 12(6)] skip_ws_Cons quote_def)
qed


lemma number_to_string_nonempty: "json_safe (JNumber x) \<Longrightarrow> number_to_string nt x \<noteq> []"
proof (cases x)
  case (Num_Finite r)
  assume "json_safe (JNumber x)"
  with integer_to_string_start [of "\<lfloor>r\<rfloor>"] show ?thesis
    by (auto simp: Num_Finite number_to_string_def)
qed simp_all

lemma cost_le_length:
  "json_safe v \<Longrightarrow> cost v \<le> length (serialize nt n v)"
  "json_safe_elements xs \<Longrightarrow> cost_elements xs \<le> length (serialize_elements nt n xs)"
  "json_safe_members ps \<Longrightarrow> cost_members ps \<le> length (serialize_members nt n ps)"
proof (induction nt n v and nt n xs and nt n ps rule: serialize_serialize_elements_serialize_members.induct)
  case (3 nt n x)
  from number_to_string_nonempty [OF 3, of nt] show ?case
    by (cases "number_to_string nt x") simp_all
qed (simp_all add: quote_def newline_indent_def)

text \<open>Parsing the printed text of a value gives the value back, for every value whose
  numbers are safe integers and whose objects have distinct keys, whatever \<open>number_text\<close>
  and \<open>to_double\<close>.\<close>

lemma JSON_parse_stringify:
  assumes "json_safe v"
  shows "JSON_parse td (JSON_stringify nt v) = Some v"
proof -
  have "cost v \<le> Suc (length (serialize nt 0 v))"
    using cost_le_length(1) [OF assms, of nt 0] by simp
  from parse_serialize(1) [OF this assms, of "[]" "[]" td]
  show ?thesis by (simp add: JSON_parse_def JSON_stringify_def skip_ws_def)
qed

text \<open>For a workspace this asks that \<open>createdAt\<close> is a safe integer, that the keys of
  \<open>cards\<close> are distinct, and the same of each card.\<close>

lemma json_safe_elements_map:
  "json_safe_elements (map f xs) \<longleftrightarrow> (\<forall>x \<in> set xs. json_safe (f x))"
  by (induction xs) simp_all

lemma json_safe_members_iff:
  "json_safe_members ps \<longleftrightarrow> (\<forall>(k, v) \<in> set ps. json_safe v)"
  by (induction ps) auto

lemma json_safe_workspace:
  "json_safe (js_of_workspace ws) \<longleftrightarrow>
     json_safe (JNumber (createdAt (meta ws))) \<and>
     (\<forall>p \<in> set (projects ws).
        distinct (map fst (cards (board p))) \<and>
        (\<forall>(k, c) \<in> set (cards (board p)). json_safe (JObject c)))"
proof -
  have col: "json_safe (js_of_column c)" for c
    by (simp add: js_of_column_def json_safe_elements_map)
  have usr: "json_safe (js_of_user u)" for u
    by (simp add: js_of_user_def)
  have keys: "map fst (map (\<lambda>(k, c). (k, JObject c)) cs) = map fst cs" for cs :: "(string \<times> obj) list"
    by (induction cs) auto
  have mem: "json_safe_members (map (\<lambda>(k, c). (k, JObject c)) cs) \<longleftrightarrow>
      (\<forall>(k, c) \<in> set cs. json_safe (JObject c))" for cs :: "(string \<times> obj) list"
    by (induction cs) auto
  have brd: "json_safe (js_of_board b) \<longleftrightarrow>
      distinct (map fst (cards b)) \<and> (\<forall>(k, c) \<in> set (cards b). json_safe (JObject c))" for b
  proof -
    have "json_safe (js_of_board b) \<longleftrightarrow>
        distinct (map fst (map (\<lambda>(k, c). (k, JObject c)) (cards b))) \<and>
        json_safe_members (map (\<lambda>(k, c). (k, JObject c)) (cards b))"
      by (simp add: js_of_board_def json_safe_elements_map col del: map_map)
    then show ?thesis by (simp only: keys mem)
  qed
  have prj: "json_safe (js_of_project p) \<longleftrightarrow> json_safe (js_of_board (board p))" for p
    by (simp add: js_of_project_def json_safe_elements_map split: option.splits)
  show ?thesis
    by (simp add: js_of_workspace_def json_safe_elements_map usr prj brd)
qed

text \<open>C8 with the JSON model as the parser, whatever the two number functions of the
  platform, on the empty text, which does not parse, and on the text of an object without
  a \<open>projects\<close> field.\<close>

theorem importJSON_needs_projects_field_witness:
  "\<forall>to_double number_text.
     importJSON (JSON_parse to_double) [] JNull = (JNull, Some ''Could not parse JSON'')
     \<and> importJSON (JSON_parse to_double) (JSON_stringify number_text (JObject [(''users'', JArray [])])) JNull
         = (JNull, Some ''Invalid file'')"
proof (intro allI)
  fix to_double :: "rat \<Rightarrow> jsnum" and number_text :: "rat \<Rightarrow> string"
  have p1: "JSON_parse to_double [] = None"
    by (simp add: JSON_parse_def skip_ws_def)
  have p2: "JSON_parse to_double (JSON_stringify number_text (JObject [(''users'', JArray [])]))
      = Some (JObject [(''users'', JArray [])])"
    by (rule JSON_parse_stringify) simp
  have nf: "\<not> has_projects_field (JObject [(''users'', JArray [])])"
    by (simp add: has_projects_field_def)
  from importJSON_needs_projects_field [of "JSON_parse to_double" "[]" JNull] p1
  have a: "importJSON (JSON_parse to_double) [] JNull = (JNull, Some ''Could not parse JSON'')"
    by blast
  from importJSON_needs_projects_field
    [of "JSON_parse to_double" "JSON_stringify number_text (JObject [(''users'', JArray [])])" JNull] p2 nf
  have b: "importJSON (JSON_parse to_double) (JSON_stringify number_text (JObject [(''users'', JArray [])])) JNull
      = (JNull, Some ''Invalid file'')"
    by blast
  from a b show "importJSON (JSON_parse to_double) [] JNull = (JNull, Some ''Could not parse JSON'')
     \<and> importJSON (JSON_parse to_double) (JSON_stringify number_text (JObject [(''users'', JArray [])])) JNull
         = (JNull, Some ''Invalid file'')"
    by (rule conjI)
qed


subsection \<open>Export, then import\<close>





end
